theory Spec2Isabelle
  imports Main "HOL-Library.Word" "HOL-Library.Signed_Division"
begin

section \<open>Machine integers\<close>

text \<open>
  \<^verbatim>\<open>uint32_t\<close> values are 32-bit words: addition, subtraction and multiplication wrap
  around. An \<^verbatim>\<open>int32_t\<close> is the same word read through \<open>sint\<close>.
\<close>

type_synonym u32 = "32 word"

section \<open>main.cpp: compiled constants\<close>

definition SIGNAL_FREQ :: nat where
  "SIGNAL_FREQ = 50"

definition MOD_INDEX_MF :: nat where
  "MOD_INDEX_MF = 256"

definition DEAD_TIME :: u32 where
  "DEAD_TIME = 50"

definition DEADTIME_COMPENSATION :: u32 where
  "DEADTIME_COMPENSATION = 2"

definition IE_DELAY_COMPENSATION :: u32 where
  "IE_DELAY_COMPENSATION = 3"

definition NET_DEADTIME_COUNT :: u32 where
  "NET_DEADTIME_COUNT = DEAD_TIME - DEADTIME_COMPENSATION"

section \<open>main.cpp: dead-time adjustment of the published values\<close>

text \<open>
  The globals that main adjusts in place after the synthesis: the two sync counts and
  the two 512-entry tables.
\<close>

record published =
  h1_sync_count :: u32
  h2_sync_count :: u32
  spwm_h1_high_table :: "u32 list"
  spwm_h2_high_table :: "u32 list"

text \<open>
  \<^verbatim>\<open>h1_sync_count = h1_sync_count - DEAD_TIME - IE_DELAY_COMPENSATION;\<close> and the same
  statement for \<^verbatim>\<open>h2_sync_count\<close>.
\<close>

definition adjust_sync_counts :: "published \<Rightarrow> published" where
  "adjust_sync_counts g =
     g\<lparr>h1_sync_count := h1_sync_count g - DEAD_TIME - IE_DELAY_COMPENSATION,
       h2_sync_count := h2_sync_count g - DEAD_TIME - IE_DELAY_COMPENSATION\<rparr>"

text \<open>
  \<^verbatim>\<open>for(uint16_t i=0; i<(MOD_INDEX_MF*2); i++)\<close>: entry \<open>i\<close> of each table is replaced
  by itself minus \<^verbatim>\<open>DEAD_TIME\<close> minus \<^verbatim>\<open>IE_DELAY_COMPENSATION\<close>. The tables are the
  static arrays of \<open>BUFFER_SIZE/4 = 512\<close> entries, so every index of the loop is in range.
\<close>

function adjust_tables :: "nat \<Rightarrow> published \<Rightarrow> published" where
  "adjust_tables i g =
     (if i < MOD_INDEX_MF * 2 then
        adjust_tables (i + 1)
          (g\<lparr>spwm_h1_high_table :=
               (spwm_h1_high_table g)
                 [i := spwm_h1_high_table g ! i - DEAD_TIME - IE_DELAY_COMPENSATION],
             spwm_h2_high_table :=
               (spwm_h2_high_table g)
                 [i := spwm_h2_high_table g ! i - DEAD_TIME - IE_DELAY_COMPENSATION]\<rparr>)
      else g)"
  by pat_completeness auto
termination
  by (relation "measure (\<lambda>(i, g). MOD_INDEX_MF * 2 - i)") auto

declare adjust_tables.simps [simp del]

definition dead_time_adjust :: "published \<Rightarrow> published" where
  "dead_time_adjust g = adjust_tables 0 (adjust_sync_counts g)"

text \<open>What the spec's formula subtracts: the net dead time, then the execution delay.\<close>

definition spec_adjusted :: "u32 \<Rightarrow> u32" where
  "spec_adjusted raw = raw - (DEAD_TIME - DEADTIME_COMPENSATION) - IE_DELAY_COMPENSATION"

section \<open>main.cpp: half period of the sync output\<close>

text \<open>
  \<^verbatim>\<open>uint32_t sync_out_half_duration = ((signal_duration/2)-DEADTIME_COMPENSATION);\<close>
  This value is the one put into the TX FIFO of the third state machine.
\<close>

definition sync_out_half_duration :: "u32 \<Rightarrow> u32" where
  "sync_out_half_duration period = (period div 2) - DEADTIME_COMPENSATION"

section \<open>spwm\_lut.cpp: constants and derived durations\<close>

text \<open>
  The undefined behaviours that \<^verbatim>\<open>spwm_unipolar_arrays\<close> can reach are results of the
  model: the conversion of an infinite \<^verbatim>\<open>double\<close> to \<^verbatim>\<open>uint32_t\<close>, an integer division
  by zero, a signed addition or subtraction whose result is not an \<^verbatim>\<open>int\<close>, and a store
  outside a table.
\<close>

datatype fault = UndefinedConversion | DivisionByZero | SignedOverflow | OutOfBounds

definition thn :: "fault + 'a \<Rightarrow> ('a \<Rightarrow> fault + 'b) \<Rightarrow> fault + 'b" where
  "thn r f = (case r of Inl x \<Rightarrow> Inl x | Inr v \<Rightarrow> f v)"

definition scaling_factor :: u32 where
  "scaling_factor = 1000000"

text \<open>
  \<^verbatim>\<open>(uint32_t)(1.0f/(T_STEP * (double)(signal_freq * mf * 4)))\<close> with
  \<^verbatim>\<open>T_STEP = 1.0e-8f\<close>. The \<^verbatim>\<open>float\<close> literal is the binary fraction
  \<open>11258999 / 2 ^ 50\<close>; its product with the integer \<open>signal_freq * mf * 4\<close> (at most
  \<open>255 * 65535 * 4\<close>) is exact in a \<^verbatim>\<open>double\<close>, and the rounding of the quotient cannot
  reach the next integer, so the truncated value is the integer quotient below. For a
  zero product the quotient is infinite and the conversion is undefined; the caller of
  this function checks that first.
\<close>

definition quarter_ticks :: "nat \<Rightarrow> nat \<Rightarrow> u32" where
  "quarter_ticks signal_freq m = of_nat (2 ^ 50 div (11258999 * (signal_freq * m * 4)))"

text \<open>
  The values that stay fixed during one call. The two sample functions stand for the
  floating-point expressions of the source, which the embedding does not compute:
  \<open>s1_sample t\<close> is \<^verbatim>\<open>(int32_t)(ma_scaled * sin(omega * t))\<close> and \<open>s2_sample t\<close> is
  \<^verbatim>\<open>(int32_t)(-1 * (ma_scaled * sin(omega * t)))\<close>, each as the 32-bit pattern of the
  \<^verbatim>\<open>int32_t\<close>. The modulation index \<^verbatim>\<open>ma\<close> enters the computation through them only.
  The conversion of \<^verbatim>\<open>ma * scaling_factor\<close> to \<^verbatim>\<open>uint32_t\<close> and the conversions of the scaled
  sine to \<^verbatim>\<open>int32_t\<close> are undefined for a value outside the target type (a negative or
  very large \<^verbatim>\<open>ma\<close>); the sample functions stand for the calls in which they are defined.
\<close>

record params =
  mf :: nat
  carrier_duration_quarter :: u32
  s1_sample :: "u32 \<Rightarrow> u32"
  s2_sample :: "u32 \<Rightarrow> u32"

definition carrier_duration_half :: "params \<Rightarrow> u32" where
  "carrier_duration_half c = 2 * carrier_duration_quarter c"

definition carrier_duration_3_quarter :: "params \<Rightarrow> u32" where
  "carrier_duration_3_quarter c = 3 * carrier_duration_quarter c"

definition carrier_duration :: "params \<Rightarrow> u32" where
  "carrier_duration c = 4 * carrier_duration_quarter c"

text \<open>\<^verbatim>\<open>scaling_factor / carrier_duration_quarter\<close>, an unsigned division.\<close>

definition carrier_slope :: "params \<Rightarrow> u32" where
  "carrier_slope c = scaling_factor div carrier_duration_quarter c"

definition signal_duration :: "params \<Rightarrow> u32" where
  "signal_duration c = carrier_duration c * of_nat (mf c)"

definition signal_duration_quarter :: "params \<Rightarrow> u32" where
  "signal_duration_quarter c = signal_duration c div 4"

text \<open>
  \<^verbatim>\<open>uint16_t array_mid_point = (mf-1); uint16_t array_end_point = (2 * mf) - 1;\<close>
  Both are computed in \<^verbatim>\<open>int\<close> and then cut to 16 bits.
\<close>

definition array_mid_point :: "params \<Rightarrow> int" where
  "array_mid_point c = (int (mf c) - 1) mod 65536"

definition array_end_point :: "params \<Rightarrow> int" where
  "array_end_point c = (2 * int (mf c) - 1) mod 65536"

definition max_cycle_counts :: "params \<Rightarrow> nat" where
  "max_cycle_counts c = mf c div 4"

section \<open>spwm\_lut.cpp: the state of one call\<close>

text \<open>
  The two tables and the two sync words are the caller's memory behind the four pointer
  arguments; the other fields are the locals of the function. A table pointer is kept as
  its offset from the start of its table (\<open>p_h1_ref1\<close> to \<open>p_h1_ref4\<close> into the first
  table, \<open>p_h2_ref1\<close> to \<open>p_h2_ref4\<close> into the second). The carrier cycle counter \<open>n\<close>
  stays below \<open>mf / 4\<close>, so its 16 bits never wrap.

  The last three fields are bookkeeping that the source does not have: the set of
  indices stored to in each table, and the list of detected crossings, each with its
  carrier cycle, its quarter (1 to 4) and its tick. Nothing else reads them.
\<close>

record synth =
  h1_table :: "u32 list"
  h2_table :: "u32 list"
  h1_sync :: u32
  h2_sync :: u32
  s1_sync_captured :: bool
  s2_sync_captured :: bool
  h1_high_val_old :: u32
  h2_high_val_old :: u32
  time_counter :: u32
  tri_time_counter :: u32
  p_h1_ref1 :: int
  p_h1_ref2 :: int
  p_h1_ref3 :: int
  p_h1_ref4 :: int
  p_h2_ref1 :: int
  p_h2_ref2 :: int
  p_h2_ref3 :: int
  p_h2_ref4 :: int
  n :: nat
  h1_written :: "nat set"
  h2_written :: "nat set"
  crossing_ticks :: "(nat \<times> nat \<times> u32) list"

text \<open>A store through a pointer into the first or the second table.\<close>

definition store_h1 :: "int \<Rightarrow> u32 \<Rightarrow> synth \<Rightarrow> fault + synth" where
  "store_h1 i v s =
     (if 0 \<le> i \<and> i < int (length (h1_table s))
      then Inr (s\<lparr>h1_table := (h1_table s)[nat i := v],
                  h1_written := insert (nat i) (h1_written s)\<rparr>)
      else Inl OutOfBounds)"

definition store_h2 :: "int \<Rightarrow> u32 \<Rightarrow> synth \<Rightarrow> fault + synth" where
  "store_h2 i v s =
     (if 0 \<le> i \<and> i < int (length (h2_table s))
      then Inr (s\<lparr>h2_table := (h2_table s)[nat i := v],
                  h2_written := insert (nat i) (h2_written s)\<rparr>)
      else Inl OutOfBounds)"

text \<open>
  The four stores of a duration found on the first sine wave (first and fourth quarter):
  \<^verbatim>\<open>*p_h1_ref1 = result; p_h1_ref1++; *p_h1_ref2 = result; p_h1_ref2--;
  *p_h2_ref3 = result; p_h2_ref3++; *p_h2_ref4 = result; p_h2_ref4--;\<close>
\<close>

definition store_s1 :: "u32 \<Rightarrow> synth \<Rightarrow> fault + synth" where
  "store_s1 r s =
     thn (store_h1 (p_h1_ref1 s) r s) (\<lambda>s.
     thn (store_h1 (p_h1_ref2 s) r (s\<lparr>p_h1_ref1 := p_h1_ref1 s + 1\<rparr>)) (\<lambda>s.
     thn (store_h2 (p_h2_ref3 s) r (s\<lparr>p_h1_ref2 := p_h1_ref2 s - 1\<rparr>)) (\<lambda>s.
     thn (store_h2 (p_h2_ref4 s) r (s\<lparr>p_h2_ref3 := p_h2_ref3 s + 1\<rparr>)) (\<lambda>s.
     Inr (s\<lparr>p_h2_ref4 := p_h2_ref4 s - 1\<rparr>)))))"

text \<open>The four stores of a duration found on the second sine wave (second and third quarter).\<close>

definition store_s2 :: "u32 \<Rightarrow> synth \<Rightarrow> fault + synth" where
  "store_s2 r s =
     thn (store_h2 (p_h2_ref1 s) r s) (\<lambda>s.
     thn (store_h2 (p_h2_ref2 s) r (s\<lparr>p_h2_ref1 := p_h2_ref1 s + 1\<rparr>)) (\<lambda>s.
     thn (store_h1 (p_h1_ref3 s) r (s\<lparr>p_h2_ref2 := p_h2_ref2 s - 1\<rparr>)) (\<lambda>s.
     thn (store_h1 (p_h1_ref4 s) r (s\<lparr>p_h1_ref3 := p_h1_ref3 s + 1\<rparr>)) (\<lambda>s.
     Inr (s\<lparr>p_h1_ref4 := p_h1_ref4 s - 1\<rparr>)))))"

text \<open>
  \<^verbatim>\<open>*(p_h1_high + array_mid_point) = result; *(p_h1_high + array_end_point) = result;
  *(p_h2_high + array_mid_point) = result; *(p_h2_high + array_end_point) = result;\<close>
\<close>

definition store_mid_end :: "params \<Rightarrow> u32 \<Rightarrow> synth \<Rightarrow> fault + synth" where
  "store_mid_end c r s =
     thn (store_h1 (array_mid_point c) r s) (\<lambda>s.
     thn (store_h1 (array_end_point c) r s) (\<lambda>s.
     thn (store_h2 (array_mid_point c) r s) (\<lambda>s.
     store_h2 (array_end_point c) r s)))"

section \<open>spwm\_lut.cpp: carrier amplitude and the skip-ahead estimate\<close>

text \<open>
  The division of two \<^verbatim>\<open>int32_t\<close> values truncates towards zero and is undefined for a
  zero divisor. The divisor is always \<open>carrier_slope\<close>, which lies between 0 and 1000000.
\<close>

definition sdiv32 :: "u32 \<Rightarrow> u32 \<Rightarrow> fault + u32" where
  "sdiv32 a b = (if b = 0 then Inl DivisionByZero else Inr (word_of_int (sint a sdiv sint b)))"

text \<open>
  The difference and the sum of two \<^verbatim>\<open>int\<close> values (\<^verbatim>\<open>scaling_factor\<close> is an \<^verbatim>\<open>int\<close> constant
  and the sine sample an \<^verbatim>\<open>int32_t\<close>): undefined when the exact result is not an \<^verbatim>\<open>int\<close>.
\<close>

definition int_sub :: "u32 \<Rightarrow> u32 \<Rightarrow> fault + u32" where
  "int_sub a b =
     (if sint a - sint b < - 2147483648 \<or> 2147483647 < sint a - sint b
      then Inl SignedOverflow else Inr (a - b))"

definition int_add :: "u32 \<Rightarrow> u32 \<Rightarrow> fault + u32" where
  "int_add a b =
     (if sint a + sint b < - 2147483648 \<or> 2147483647 < sint a + sint b
      then Inl SignedOverflow else Inr (a + b))"

text \<open>
  \<^verbatim>\<open>scaling_factor - (carrier_slope * tri_time_counter)\<close> in the first half of the
  carrier cycle and
  \<^verbatim>\<open>(-1 * scaling_factor) + (carrier_slope * (tri_time_counter - carrier_duration_half))\<close>
  in the second half: computed in \<^verbatim>\<open>uint32_t\<close> and read as \<^verbatim>\<open>int32_t\<close>.
\<close>

definition carrier_falling :: "params \<Rightarrow> u32 \<Rightarrow> u32" where
  "carrier_falling c tri = scaling_factor - carrier_slope c * tri"

definition carrier_rising :: "params \<Rightarrow> u32 \<Rightarrow> u32" where
  "carrier_rising c tri = - scaling_factor + carrier_slope c * (tri - carrier_duration_half c)"

section \<open>spwm\_lut.cpp: the search loop of one quarter\<close>

text \<open>
  Each of the four \<^verbatim>\<open>while(tri_time_counter < bound)\<close> loops has the same shape. When the
  comparison of its quarter holds the branch for a crossing runs (\<open>capture\<close>), and every
  such branch of the source ends with
  \<^verbatim>\<open>time_counter = time_counter + (bound - tri_time_counter); tri_time_counter = bound;\<close>
  otherwise both counters advance by one tick.
\<close>

definition advance :: "synth \<Rightarrow> synth" where
  "advance s =
     s\<lparr>time_counter := time_counter s + 1, tri_time_counter := tri_time_counter s + 1\<rparr>"

definition leave_quarter :: "u32 \<Rightarrow> synth \<Rightarrow> synth" where
  "leave_quarter bound s =
     s\<lparr>time_counter := time_counter s + (bound - tri_time_counter s),
       tri_time_counter := bound\<rparr>"

text \<open>Bookkeeping only: the crossing detected at the current tick is added to the list.\<close>

definition note_crossing :: "nat \<Rightarrow> synth \<Rightarrow> synth" where
  "note_crossing q s = s\<lparr>crossing_ticks := crossing_ticks s @ [(n s, q, time_counter s)]\<rparr>"

function search ::
  "nat \<Rightarrow> u32 \<Rightarrow> (synth \<Rightarrow> bool) \<Rightarrow> (synth \<Rightarrow> fault + synth) \<Rightarrow> synth \<Rightarrow> fault + synth" where
  "search q bound crossed capture s =
     (if tri_time_counter s < bound then
        (if crossed s then
           (case capture (note_crossing q s) of
              Inl x \<Rightarrow> Inl x
            | Inr s' \<Rightarrow> search q bound crossed capture (leave_quarter bound s'))
         else search q bound crossed capture (advance s))
      else Inr s)"
  by pat_completeness auto
termination
proof (relation "measure (\<lambda>(q, bound, crossed, capture, s). unat bound - unat (tri_time_counter s))")
  show "wf (measure (\<lambda>(q, bound, crossed, capture, s). unat bound - unat (tri_time_counter s)))"
    by simp
next
  fix q :: nat and bound :: u32 and crossed :: "synth \<Rightarrow> bool"
    and capture :: "synth \<Rightarrow> fault + synth" and s s' :: synth
  assume "tri_time_counter s < bound"
  then show "((q, bound, crossed, capture, leave_quarter bound s'), q, bound, crossed, capture, s)
       \<in> measure (\<lambda>(q, bound, crossed, capture, s). unat bound - unat (tri_time_counter s))"
    by (simp add: word_less_nat_alt leave_quarter_def)
next
  fix q :: nat and bound :: u32 and crossed :: "synth \<Rightarrow> bool"
    and capture :: "synth \<Rightarrow> fault + synth" and s :: synth
  assume lt: "tri_time_counter s < bound"
  then have "unat (tri_time_counter s) < unat bound"
    by (simp add: word_less_nat_alt)
  moreover have "unat bound < 2 ^ 32"
    using unsigned_less [of bound, where ?'a = nat] by simp
  ultimately have "unat (tri_time_counter s) + 1 < 2 ^ 32"
    by simp
  then have "unat (tri_time_counter s + 1) = unat (tri_time_counter s) + 1"
    by (simp add: unat_word_ariths)
  with lt show "((q, bound, crossed, capture, advance s), q, bound, crossed, capture, s)
       \<in> measure (\<lambda>(q, bound, crossed, capture, s). unat bound - unat (tri_time_counter s))"
    by (simp add: word_less_nat_alt advance_def)
qed

declare search.simps [simp del]

section \<open>spwm\_lut.cpp: what each quarter does at a crossing\<close>

text \<open>
  First quarter: the first crossing is the sync count of the first sine wave; every later
  one gives the duration since the previous crossing of that wave.
\<close>

definition capture_q1 :: "synth \<Rightarrow> fault + synth" where
  "capture_q1 s =
     (if \<not> s1_sync_captured s then
        Inr (s\<lparr>h1_sync := time_counter s, s1_sync_captured := True,
              h1_high_val_old := time_counter s\<rparr>)
      else
        thn (store_s1 (time_counter s - h1_high_val_old s) s) (\<lambda>s.
        Inr (s\<lparr>h1_high_val_old := time_counter s\<rparr>)))"

text \<open>
  Second quarter: the first crossing is the sync count of the second sine wave, and
  \<^verbatim>\<open>result = *h1_sync + *h2_sync\<close> goes to the mid point and the end point of both tables.
\<close>

definition capture_q2 :: "params \<Rightarrow> synth \<Rightarrow> fault + synth" where
  "capture_q2 c s =
     (if \<not> s2_sync_captured s then
        thn (store_mid_end c (h1_sync s + time_counter s) (s\<lparr>h2_sync := time_counter s\<rparr>)) (\<lambda>s.
        Inr (s\<lparr>s2_sync_captured := True, h2_high_val_old := time_counter s\<rparr>))
      else
        thn (store_s2 (time_counter s - h2_high_val_old s) s) (\<lambda>s.
        Inr (s\<lparr>h2_high_val_old := time_counter s\<rparr>)))"

definition capture_q3 :: "synth \<Rightarrow> fault + synth" where
  "capture_q3 s =
     thn (store_s2 (time_counter s - h2_high_val_old s) s) (\<lambda>s.
     Inr (s\<lparr>h2_high_val_old := time_counter s\<rparr>))"

definition capture_q4 :: "synth \<Rightarrow> fault + synth" where
  "capture_q4 s =
     thn (store_s1 (time_counter s - h1_high_val_old s) s) (\<lambda>s.
     Inr (s\<lparr>h1_high_val_old := time_counter s\<rparr>))"

section \<open>spwm\_lut.cpp: the four quarters of one carrier cycle\<close>

text \<open>
  \<^verbatim>\<open>tri_time_counter = estimate; time_counter = (n * carrier_duration) + tri_time_counter;\<close>
\<close>

definition start_search :: "params \<Rightarrow> u32 \<Rightarrow> synth \<Rightarrow> synth" where
  "start_search c t s =
     s\<lparr>tri_time_counter := t, time_counter := of_nat (n s) * carrier_duration c + t\<rparr>"

text \<open>
  The skip-ahead estimate of each quarter, from the sine value at the end of the first or
  of the third quarter of the carrier cycle:
  \<^verbatim>\<open>(scaling_factor - s1_amplitude) / carrier_slope\<close>,
  \<^verbatim>\<open>(scaling_factor - s2_amplitude) / carrier_slope\<close>,
  \<^verbatim>\<open>((scaling_factor + s2_amplitude) / carrier_slope) + carrier_duration_half\<close> and
  \<^verbatim>\<open>((scaling_factor + s1_amplitude) / carrier_slope) + carrier_duration_half\<close>.
\<close>

definition estimate_q1 :: "params \<Rightarrow> synth \<Rightarrow> fault + u32" where
  "estimate_q1 c s =
     thn (int_sub scaling_factor
            (s1_sample c (of_nat (n s) * carrier_duration c + carrier_duration_quarter c)))
       (\<lambda>d.
     sdiv32 d (carrier_slope c))"

definition estimate_q2 :: "params \<Rightarrow> synth \<Rightarrow> fault + u32" where
  "estimate_q2 c s =
     thn (int_sub scaling_factor
            (s2_sample c (of_nat (n s) * carrier_duration c + carrier_duration_quarter c)))
       (\<lambda>d.
     sdiv32 d (carrier_slope c))"

definition estimate_q3 :: "params \<Rightarrow> synth \<Rightarrow> fault + u32" where
  "estimate_q3 c s =
     thn (int_add scaling_factor
            (s2_sample c (of_nat (n s) * carrier_duration c + carrier_duration_3_quarter c)))
       (\<lambda>d.
     thn (sdiv32 d (carrier_slope c)) (\<lambda>t.
     Inr (t + carrier_duration_half c)))"

definition estimate_q4 :: "params \<Rightarrow> synth \<Rightarrow> fault + u32" where
  "estimate_q4 c s =
     thn (int_add scaling_factor
            (s1_sample c (of_nat (n s) * carrier_duration c + carrier_duration_3_quarter c)))
       (\<lambda>d.
     thn (sdiv32 d (carrier_slope c)) (\<lambda>t.
     Inr (t + carrier_duration_half c)))"

text \<open>
  The comparison of each quarter, on \<^verbatim>\<open>int32_t\<close> values:
  \<^verbatim>\<open>s1_amplitude >= carrier_amplitude\<close>, \<^verbatim>\<open>s2_amplitude >= carrier_amplitude\<close>,
  \<^verbatim>\<open>carrier_amplitude >= s2_amplitude\<close> and \<^verbatim>\<open>carrier_amplitude >= s1_amplitude\<close>.
\<close>

definition crossed_q1 :: "params \<Rightarrow> synth \<Rightarrow> bool" where
  "crossed_q1 c s \<longleftrightarrow>
     carrier_falling c (tri_time_counter s) \<le>s s1_sample c (time_counter s)"

definition crossed_q2 :: "params \<Rightarrow> synth \<Rightarrow> bool" where
  "crossed_q2 c s \<longleftrightarrow>
     carrier_falling c (tri_time_counter s) \<le>s s2_sample c (time_counter s)"

definition crossed_q3 :: "params \<Rightarrow> synth \<Rightarrow> bool" where
  "crossed_q3 c s \<longleftrightarrow>
     s2_sample c (time_counter s) \<le>s carrier_rising c (tri_time_counter s)"

definition crossed_q4 :: "params \<Rightarrow> synth \<Rightarrow> bool" where
  "crossed_q4 c s \<longleftrightarrow>
     s1_sample c (time_counter s) \<le>s carrier_rising c (tri_time_counter s)"

definition first_quarter :: "params \<Rightarrow> synth \<Rightarrow> fault + synth" where
  "first_quarter c s =
     thn (estimate_q1 c s) (\<lambda>t.
     search 1 (carrier_duration_quarter c) (crossed_q1 c) capture_q1 (start_search c t s))"

definition second_quarter :: "params \<Rightarrow> synth \<Rightarrow> fault + synth" where
  "second_quarter c s =
     thn (estimate_q2 c s) (\<lambda>t.
     search 2 (carrier_duration_half c) (crossed_q2 c) (capture_q2 c) (start_search c t s))"

definition third_quarter :: "params \<Rightarrow> synth \<Rightarrow> fault + synth" where
  "third_quarter c s =
     thn (estimate_q3 c s) (\<lambda>t.
     search 3 (carrier_duration_3_quarter c) (crossed_q3 c) capture_q3 (start_search c t s))"

definition fourth_quarter :: "params \<Rightarrow> synth \<Rightarrow> fault + synth" where
  "fourth_quarter c s =
     thn (estimate_q4 c s) (\<lambda>t.
     search 4 (carrier_duration c) (crossed_q4 c) capture_q4 (start_search c t s))"

definition carrier_cycle :: "params \<Rightarrow> synth \<Rightarrow> fault + synth" where
  "carrier_cycle c s =
     thn (first_quarter c s) (\<lambda>s.
     thn (second_quarter c s) (\<lambda>s.
     thn (third_quarter c s) (\<lambda>s.
     fourth_quarter c s)))"

section \<open>spwm\_lut.cpp: the outer loop and the whole function\<close>

text \<open>
  \<^verbatim>\<open>while (n < max_cycle_counts) { ... n++; }\<close> The body never assigns \<open>n\<close>, so the
  increment is taken from the value at the start of the body.
\<close>

function cycles :: "params \<Rightarrow> synth \<Rightarrow> fault + synth" where
  "cycles c s =
     (if n s < max_cycle_counts c then
        (case carrier_cycle c s of
           Inl x \<Rightarrow> Inl x
         | Inr s' \<Rightarrow> cycles c (s'\<lparr>n := n s + 1\<rparr>))
      else Inr s)"
  by pat_completeness auto
termination
  by (relation "measure (\<lambda>(c, s). max_cycle_counts c - n s)") auto

declare cycles.simps [simp del]

text \<open>
  The last OFF duration of each wave, after the loop:
  \<^verbatim>\<open>result = 2 * (signal_duration_quarter - h1_high_val_old); *p_h1_ref1 = result;
  *p_h2_ref3 = result; result = 2 * (signal_duration_quarter - h2_high_val_old);
  *p_h2_ref1 = result; *p_h1_ref3 = result;\<close>
\<close>

definition last_off_durations :: "params \<Rightarrow> synth \<Rightarrow> fault + synth" where
  "last_off_durations c s =
     thn (store_h1 (p_h1_ref1 s) (2 * (signal_duration_quarter c - h1_high_val_old s)) s) (\<lambda>s.
     thn (store_h2 (p_h2_ref3 s) (2 * (signal_duration_quarter c - h1_high_val_old s)) s) (\<lambda>s.
     thn (store_h2 (p_h2_ref1 s) (2 * (signal_duration_quarter c - h2_high_val_old s)) s) (\<lambda>s.
     store_h1 (p_h1_ref3 s) (2 * (signal_duration_quarter c - h2_high_val_old s)) s)))"

text \<open>
  The state at entry: the caller's tables and sync words as they are, the locals as the
  function initialises them.
\<close>

definition entry_state :: "nat \<Rightarrow> u32 list \<Rightarrow> u32 list \<Rightarrow> u32 \<Rightarrow> u32 \<Rightarrow> synth" where
  "entry_state m t1 t2 sync1 sync2 =
     \<lparr>h1_table = t1, h2_table = t2, h1_sync = sync1, h2_sync = sync2,
      s1_sync_captured = False, s2_sync_captured = False,
      h1_high_val_old = 0, h2_high_val_old = 0,
      time_counter = 0, tri_time_counter = 0,
      p_h1_ref1 = 0, p_h1_ref2 = int m - 2, p_h1_ref3 = int m, p_h1_ref4 = int m * 2 - 2,
      p_h2_ref1 = 0, p_h2_ref2 = int m - 2, p_h2_ref3 = int m, p_h2_ref4 = int m * 2 - 2,
      n = 0, h1_written = {}, h2_written = {}, crossing_ticks = []\<rparr>"

text \<open>
  The body of the function once the quarter duration is known. The slope is the first
  division by \<open>carrier_duration_quarter\<close>. The result is the returned
  \<open>signal_duration\<close> together with the final state.
\<close>

definition synthesize :: "params \<Rightarrow> synth \<Rightarrow> fault + u32 \<times> synth" where
  "synthesize c s =
     (if carrier_duration_quarter c = 0 then Inl DivisionByZero
      else thn (cycles c s) (\<lambda>s.
           thn (last_off_durations c s) (\<lambda>s.
           Inr (signal_duration c, s))))"

text \<open>
  \<^verbatim>\<open>uint32_t spwm_unipolar_arrays(uint8_t signal_freq, uint16_t mf, double ma,
  uint32_t* p_h1_high, uint32_t* p_h2_high, uint32_t* h1_sync, uint32_t* h2_sync)\<close>.
  The first two arguments of the model are the sample functions that stand for the
  expressions in \<^verbatim>\<open>ma\<close> and \<^verbatim>\<open>sin\<close>; the tables and sync words are passed with the
  contents they have at the call.
\<close>

definition params_of ::
  "(u32 \<Rightarrow> u32) \<Rightarrow> (u32 \<Rightarrow> u32) \<Rightarrow> 8 word \<Rightarrow> 16 word \<Rightarrow> params" where
  "params_of s1 s2 signal_freq mf_arg =
     \<lparr>mf = unat mf_arg,
      carrier_duration_quarter = quarter_ticks (unat signal_freq) (unat mf_arg),
      s1_sample = s1, s2_sample = s2\<rparr>"

definition spwm_unipolar_arrays ::
  "(u32 \<Rightarrow> u32) \<Rightarrow> (u32 \<Rightarrow> u32) \<Rightarrow> 8 word \<Rightarrow> 16 word \<Rightarrow>
   u32 list \<Rightarrow> u32 list \<Rightarrow> u32 \<Rightarrow> u32 \<Rightarrow> fault + u32 \<times> synth" where
  "spwm_unipolar_arrays s1 s2 signal_freq mf_arg t1 t2 sync1 sync2 =
     (if unat signal_freq * unat mf_arg * 4 = 0 then Inl UndefinedConversion
      else synthesize (params_of s1 s2 signal_freq mf_arg)
             (entry_state (unat mf_arg) t1 t2 sync1 sync2))"

section \<open>Invariants of the synthesis loops\<close>

text \<open>
  The eight table pointers move in two groups of four. With \<open>a\<close> the offset of
  \<open>p_h1_ref1\<close> and \<open>b\<close> the offset of \<open>p_h2_ref1\<close>, the other six pointers are
  determined by \<open>a\<close>, \<open>b\<close> and \<open>mf\<close>.
\<close>

definition coupled :: "params \<Rightarrow> synth \<Rightarrow> bool" where
  "coupled c s \<longleftrightarrow>
     length (h1_table s) = 2 * mf c \<and> length (h2_table s) = 2 * mf c \<and>
     0 \<le> p_h1_ref1 s \<and>
     p_h1_ref2 s = int (mf c) - 2 - p_h1_ref1 s \<and>
     p_h2_ref3 s = int (mf c) + p_h1_ref1 s \<and>
     p_h2_ref4 s = 2 * int (mf c) - 2 - p_h1_ref1 s \<and>
     0 \<le> p_h2_ref1 s \<and>
     p_h2_ref2 s = int (mf c) - 2 - p_h2_ref1 s \<and>
     p_h1_ref3 s = int (mf c) + p_h2_ref1 s \<and>
     p_h1_ref4 s = 2 * int (mf c) - 2 - p_h2_ref1 s"

text \<open>
  The number of crossings found so far on each sine wave: the durations stored, plus one
  once the sync count is captured. After \<open>u1\<close> searches on the first wave and \<open>u2\<close>
  searches on the second one there are at most that many.
\<close>

definition events1 :: "synth \<Rightarrow> nat" where
  "events1 s = nat (p_h1_ref1 s) + (if s1_sync_captured s then 1 else 0)"

definition events2 :: "synth \<Rightarrow> nat" where
  "events2 s = nat (p_h2_ref1 s) + (if s2_sync_captured s then 1 else 0)"

definition sound :: "params \<Rightarrow> nat \<Rightarrow> nat \<Rightarrow> synth \<Rightarrow> bool" where
  "sound c u1 u2 s \<longleftrightarrow> coupled c s \<and> events1 s \<le> u1 \<and> events2 s \<le> u2"

text \<open>
  The sine samples for which the four estimates are defined in every carrier cycle of
  the loop: neither the signed subtraction or addition overflows, nor is the slope 0.
  For samples between \<open>- a\<close> and \<open>a\<close> with \<open>a \<le> 2146483647\<close> the subtraction from and
  the addition to \<open>scaling_factor\<close> stay inside \<^verbatim>\<open>int\<close>; the samples of a modulation index
  between 0 and 1 lie between \<open>- 1000000\<close> and \<open>1000000\<close>.
\<close>

definition estimable :: "params \<Rightarrow> bool" where
  "estimable c \<longleftrightarrow>
     (\<forall>s. n s < max_cycle_counts c \<longrightarrow>
        (\<exists>t. estimate_q1 c s = Inr t) \<and> (\<exists>t. estimate_q2 c s = Inr t) \<and>
        (\<exists>t. estimate_q3 c s = Inr t) \<and> (\<exists>t. estimate_q4 c s = Inr t))"

definition amplitude_within :: "int \<Rightarrow> (u32 \<Rightarrow> u32) \<Rightarrow> bool" where
  "amplitude_within a f \<longleftrightarrow> (\<forall>t. - a \<le> sint (f t) \<and> sint (f t) \<le> a)"

text \<open>
  The four entries at the mid point \<open>mf - 1\<close> and at the end point \<open>2 * mf - 1\<close> of the
  two tables.
\<close>

definition end_entries :: "params \<Rightarrow> synth \<Rightarrow> u32 list" where
  "end_entries c s =
     [h1_table s ! (mf c - 1), h1_table s ! (2 * mf c - 1),
      h2_table s ! (mf c - 1), h2_table s ! (2 * mf c - 1)]"

text \<open>
  For the run with \<open>mf = 32772\<close> and sine samples that are all 0: after the first carrier
  cycle the four entries and the two sync counts no longer change.
\<close>

definition stale_end_point :: "params \<Rightarrow> u32 list \<Rightarrow> synth \<Rightarrow> bool" where
  "stale_end_point c l s \<longleftrightarrow>
     end_entries c s = l \<and> h1_sync s = 0 \<and> h2_sync s = 16
     \<and> \<not> s1_sync_captured s \<and> s2_sync_captured s"

text \<open>
  The tick window of each quarter of a carrier cycle: \<open>[0, carrier_duration_quarter)\<close>,
  \<open>[carrier_duration_quarter, carrier_duration_half)\<close>,
  \<open>[carrier_duration_half, carrier_duration_3_quarter)\<close> and
  \<open>[carrier_duration_3_quarter, carrier_duration)\<close>. A crossing found in quarter \<open>q\<close> of
  cycle \<open>k\<close> at the tick \<open>t\<close> is in its window when \<open>t\<close> lies between
  \<open>k * carrier_duration + quarter_start\<close> and \<open>k * carrier_duration + quarter_end\<close>.
\<close>

definition quarter_start :: "params \<Rightarrow> nat \<Rightarrow> u32" where
  "quarter_start c q =
     (if q = 1 then 0 else if q = 2 then carrier_duration_quarter c
      else if q = 3 then carrier_duration_half c else carrier_duration_3_quarter c)"

definition quarter_end :: "params \<Rightarrow> nat \<Rightarrow> u32" where
  "quarter_end c q =
     (if q = 1 then carrier_duration_quarter c else if q = 2 then carrier_duration_half c
      else if q = 3 then carrier_duration_3_quarter c else carrier_duration c)"

definition in_window :: "params \<Rightarrow> nat \<times> nat \<times> u32 \<Rightarrow> bool" where
  "in_window c e \<longleftrightarrow>
     (case e of (k, q, t) \<Rightarrow>
        1 \<le> q \<and> q \<le> 4 \<and>
        k * unat (carrier_duration c) + unat (quarter_start c q) \<le> unat t \<and>
        unat t < k * unat (carrier_duration c) + unat (quarter_end c q))"

definition tick :: "nat \<times> nat \<times> u32 \<Rightarrow> nat" where
  "tick e = unat (snd (snd e))"

text \<open>
  After \<open>k\<close> quarters every crossing found so far is in its window and before the tick
  \<open>k * carrier_duration_quarter\<close>, and the ticks increase strictly.
\<close>

definition windows :: "params \<Rightarrow> nat \<Rightarrow> synth \<Rightarrow> bool" where
  "windows c k s \<longleftrightarrow>
     (\<forall>e \<in> set (crossing_ticks s).
        in_window c e \<and> tick e < k * unat (carrier_duration_quarter c))
     \<and> sorted_wrt (<) (map tick (crossing_ticks s))"

text \<open>
  What the sine of the source gives for \<open>0 < ma < 1\<close> during the first quarter of the
  signal period, the only ticks the function samples: the first wave is between 0 and
  \<open>scaling_factor\<close>, and the second wave is its negation.
\<close>

definition sine_signs :: "params \<Rightarrow> bool" where
  "sine_signs c \<longleftrightarrow>
     (\<forall>t. unat t < mf c * unat (carrier_duration_quarter c) \<longrightarrow>
        0 \<le> sint (s1_sample c t) \<and> sint (s1_sample c t) \<le> 1000000 \<and>
        - 1000000 \<le> sint (s2_sample c t) \<and> sint (s2_sample c t) \<le> 0)"

text \<open>
  The sine samples of the modulation index 0.0000105 at \<open>signal_freq = 25\<close> and \<open>mf = 8\<close>,
  for the ticks below 1000000, the first quarter of the signal period (the function
  samples no other tick): \<^verbatim>\<open>ma_scaled\<close> is 10, \<^verbatim>\<open>signal_duration\<close> is 4000000, and
  \<^verbatim>\<open>(int32_t)(10 * sin(omega * t))\<close> is \<open>k\<close> from the first tick \<open>t\<close> with
  \<open>10 * sin (2 * pi * t / 4000000) \<ge> k\<close> on. The second wave is the negation of the first.
\<close>

definition faint_sine :: "u32 \<Rightarrow> u32" where
  "faint_sine t =
     (if t < 63769 then 0 else if t < 128189 then 1 else if t < 193974 then 2
      else if t < 261980 then 3 else if t < 333334 then 4 else if t < 409666 then 5
      else if t < 493634 then 6 else if t < 590335 then 7 else if t < 712868 then 8
      else 9)"

section \<open>Dead-time adjustment: results\<close>

lemmas main_constants =
  DEAD_TIME_def DEADTIME_COMPENSATION_def IE_DELAY_COMPENSATION_def NET_DEADTIME_COUNT_def

lemma adjust_tables_lengths:
  "length (spwm_h1_high_table (adjust_tables i g)) = length (spwm_h1_high_table g) \<and>
   length (spwm_h2_high_table (adjust_tables i g)) = length (spwm_h2_high_table g)"
proof (induction i g rule: adjust_tables.induct)
  case (1 i g)
  show ?case
  proof (cases "i < MOD_INDEX_MF * 2")
    case True
    with 1 show ?thesis by (subst (1 2) adjust_tables.simps) simp
  next
    case False
    then show ?thesis by (subst (1 2) adjust_tables.simps) simp
  qed
qed

lemma adjust_tables_syncs:
  "h1_sync_count (adjust_tables i g) = h1_sync_count g \<and>
   h2_sync_count (adjust_tables i g) = h2_sync_count g"
proof (induction i g rule: adjust_tables.induct)
  case (1 i g)
  show ?case
  proof (cases "i < MOD_INDEX_MF * 2")
    case True
    with 1 show ?thesis by (subst (1 2) adjust_tables.simps) simp
  next
    case False
    then show ?thesis by (subst (1 2) adjust_tables.simps) simp
  qed
qed

lemma adjust_tables_entry:
  assumes "length (spwm_h1_high_table g) = MOD_INDEX_MF * 2"
    and "length (spwm_h2_high_table g) = MOD_INDEX_MF * 2"
    and "k < MOD_INDEX_MF * 2"
  shows "spwm_h1_high_table (adjust_tables i g) ! k =
           (if i \<le> k then spwm_h1_high_table g ! k - DEAD_TIME - IE_DELAY_COMPENSATION
            else spwm_h1_high_table g ! k) \<and>
         spwm_h2_high_table (adjust_tables i g) ! k =
           (if i \<le> k then spwm_h2_high_table g ! k - DEAD_TIME - IE_DELAY_COMPENSATION
            else spwm_h2_high_table g ! k)"
  using assms
proof (induction i g rule: adjust_tables.induct)
  case (1 i g)
  show ?case
  proof (cases "i < MOD_INDEX_MF * 2")
    case True
    let ?g = "g\<lparr>spwm_h1_high_table :=
               (spwm_h1_high_table g)
                 [i := spwm_h1_high_table g ! i - DEAD_TIME - IE_DELAY_COMPENSATION],
             spwm_h2_high_table :=
               (spwm_h2_high_table g)
                 [i := spwm_h2_high_table g ! i - DEAD_TIME - IE_DELAY_COMPENSATION]\<rparr>"
    have step: "adjust_tables i g = adjust_tables (i + 1) ?g"
      using True by (subst adjust_tables.simps) simp
    have ih: "spwm_h1_high_table (adjust_tables (i + 1) ?g) ! k =
           (if i + 1 \<le> k then spwm_h1_high_table ?g ! k - DEAD_TIME - IE_DELAY_COMPENSATION
            else spwm_h1_high_table ?g ! k) \<and>
         spwm_h2_high_table (adjust_tables (i + 1) ?g) ! k =
           (if i + 1 \<le> k then spwm_h2_high_table ?g ! k - DEAD_TIME - IE_DELAY_COMPENSATION
            else spwm_h2_high_table ?g ! k)"
      using "1.IH" [OF True] "1.prems" by simp
    show ?thesis
      unfolding step using ih "1.prems" True
      by (cases "i = k") (auto simp: nth_list_update)
  next
    case False
    then show ?thesis using "1.prems" by (subst (1 2) adjust_tables.simps) simp
  qed
qed

text \<open>
  C1. As the claim states it, every published value would be the raw value minus
  \<open>(DEAD_TIME - DEADTIME_COMPENSATION)\<close> minus \<open>IE_DELAY_COMPENSATION\<close>, that is raw - 48 - 3.
  The code subtracts the full \<open>DEAD_TIME\<close>: for a raw sync count of 1944 it publishes
  1891, where the claim's formula gives 1893.
\<close>

theorem C1_counterexample:
  "h1_sync_count (dead_time_adjust
      \<lparr>h1_sync_count = 1944, h2_sync_count = 1944,
       spwm_h1_high_table = replicate 512 1944,
       spwm_h2_high_table = replicate 512 1944\<rparr>) = 1891
   \<and> spec_adjusted 1944 = 1893"
  by (simp add: dead_time_adjust_def adjust_tables_syncs adjust_sync_counts_def
      spec_adjusted_def main_constants)

text \<open>
  C1 (amended). Every entry of both duration tables and both sync counts is published as
  the raw value minus \<open>DEAD_TIME\<close> minus \<open>IE_DELAY_COMPENSATION\<close>, in 32-bit wrap-around
  arithmetic: with the compiled constants, raw - 50 - 3 = raw - 53.
\<close>

theorem C1_dead_time_adjust:
  assumes "length (spwm_h1_high_table g) = 512"
    and "length (spwm_h2_high_table g) = 512"
    and "k < 512"
  shows "spwm_h1_high_table (dead_time_adjust g) ! k = spwm_h1_high_table g ! k - 53
       \<and> spwm_h2_high_table (dead_time_adjust g) ! k = spwm_h2_high_table g ! k - 53
       \<and> h1_sync_count (dead_time_adjust g) = h1_sync_count g - 53
       \<and> h2_sync_count (dead_time_adjust g) = h2_sync_count g - 53
       \<and> length (spwm_h1_high_table (dead_time_adjust g)) = 512
       \<and> length (spwm_h2_high_table (dead_time_adjust g)) = 512"
proof -
  let ?g = "adjust_sync_counts g"
  have len: "length (spwm_h1_high_table ?g) = MOD_INDEX_MF * 2"
    "length (spwm_h2_high_table ?g) = MOD_INDEX_MF * 2" "k < MOD_INDEX_MF * 2"
    using assms by (simp_all add: adjust_sync_counts_def MOD_INDEX_MF_def)
  have e: "spwm_h1_high_table (adjust_tables 0 ?g) ! k =
             spwm_h1_high_table ?g ! k - DEAD_TIME - IE_DELAY_COMPENSATION"
    "spwm_h2_high_table (adjust_tables 0 ?g) ! k =
             spwm_h2_high_table ?g ! k - DEAD_TIME - IE_DELAY_COMPENSATION"
    using adjust_tables_entry [OF len, of 0] by simp_all
  have s: "h1_sync_count (adjust_tables 0 ?g) = h1_sync_count ?g"
    "h2_sync_count (adjust_tables 0 ?g) = h2_sync_count ?g"
    using adjust_tables_syncs [of 0 ?g] by simp_all
  have l: "length (spwm_h1_high_table (adjust_tables 0 ?g)) = length (spwm_h1_high_table ?g)"
    "length (spwm_h2_high_table (adjust_tables 0 ?g)) = length (spwm_h2_high_table ?g)"
    using adjust_tables_lengths [of 0 ?g] by simp_all
  show ?thesis
    unfolding dead_time_adjust_def e s l
    using assms by (simp add: adjust_sync_counts_def main_constants)
qed

theorem C1_dead_time_adjust_witness:
  "spwm_h1_high_table (dead_time_adjust
      \<lparr>h1_sync_count = 1944, h2_sync_count = 3945,
       spwm_h1_high_table = replicate 512 3830,
       spwm_h2_high_table = replicate 512 4021\<rparr>) ! 7 = 3777
   \<and> spwm_h2_high_table (dead_time_adjust
      \<lparr>h1_sync_count = 1944, h2_sync_count = 3945,
       spwm_h1_high_table = replicate 512 3830,
       spwm_h2_high_table = replicate 512 4021\<rparr>) ! 7 = 3968
   \<and> h1_sync_count (dead_time_adjust
      \<lparr>h1_sync_count = 1944, h2_sync_count = 3945,
       spwm_h1_high_table = replicate 512 3830,
       spwm_h2_high_table = replicate 512 4021\<rparr>) = 1891
   \<and> h2_sync_count (dead_time_adjust
      \<lparr>h1_sync_count = 1944, h2_sync_count = 3945,
       spwm_h1_high_table = replicate 512 3830,
       spwm_h2_high_table = replicate 512 4021\<rparr>) = 3892"
  using C1_dead_time_adjust [of "\<lparr>h1_sync_count = 1944, h2_sync_count = 3945,
       spwm_h1_high_table = replicate 512 3830,
       spwm_h2_high_table = replicate 512 4021\<rparr>" 7]
  by simp

section \<open>Sync output: results\<close>

text \<open>
  C3. As the claim states it, the half period would be the returned period / 2 minus
  \<open>IE_DELAY_COMPENSATION\<close> (3). For the period 1999872 that the compiled configuration
  gives (4 * 1953 * 256), the code loads 999934; the claim's formula gives 999933.
\<close>

theorem C3_counterexample:
  "sync_out_half_duration 1999872 = 999934
   \<and> (1999872 div 2) - IE_DELAY_COMPENSATION = (999933 :: u32)"
  by (simp add: sync_out_half_duration_def main_constants)

text \<open>
  C3 (amended). The half period loaded into the sync-output generator is
  the returned period divided by 2 (unsigned 32-bit division) minus \<open>DEADTIME_COMPENSATION\<close>, which
  is 2, with 32-bit wrap-around.
\<close>

theorem C3_sync_out_half_duration:
  "sync_out_half_duration period = (period div 2) - 2"
  by (simp add: sync_out_half_duration_def main_constants)

section \<open>Synthesis: the search loop and the carrier cycles\<close>


lemma thn_Inr [simp]: "thn (Inr v) f = f v"
  by (simp add: thn_def)

lemma thn_Inl [simp]: "thn (Inl x) f = Inl x"
  by (simp add: thn_def)

lemma thn_eq_Inr: "thn r f = Inr y \<longleftrightarrow> (\<exists>v. r = Inr v \<and> f v = Inr y)"
  by (cases r) simp_all

lemma search_total:
  assumes cap: "\<And>s0. R s0 \<Longrightarrow> tri_time_counter s0 < bound \<Longrightarrow>
            \<exists>s1. capture (note_crossing q s0) = Inr s1 \<and> Q (leave_quarter bound s1)"
    and adv: "\<And>s0. R s0 \<Longrightarrow> tri_time_counter s0 < bound \<Longrightarrow> R (advance s0)"
    and fin: "\<And>s0. R s0 \<Longrightarrow> \<not> tri_time_counter s0 < bound \<Longrightarrow> Q s0"
    and start: "R s"
  shows "\<exists>s'. search q bound crossed capture s = Inr s' \<and> Q s'"
  using assms
proof (induction q bound crossed capture s rule: search.induct)
  case (1 q bound crossed capture s)
  note cap = "1.prems"(1) and adv = "1.prems"(2) and fin = "1.prems"(3) and start = "1.prems"(4)
  show ?case
  proof (cases "tri_time_counter s < bound")
    case False
    then have "search q bound crossed capture s = Inr s"
      by (subst search.simps) simp
    with fin [OF start False] show ?thesis by simp
  next
    case lt: True
    show ?thesis
    proof (cases "crossed s")
      case True
      from cap [OF start lt] obtain s1 where
        c: "capture (note_crossing q s) = Inr s1" and q: "Q (leave_quarter bound s1)"
        by blast
      have "search q bound crossed capture (leave_quarter bound s1) = Inr (leave_quarter bound s1)"
        by (subst search.simps) (simp add: leave_quarter_def)
      then have "search q bound crossed capture s = Inr (leave_quarter bound s1)"
        using lt True c by (subst search.simps) simp
      with q show ?thesis by simp
    next
      case False
      have e: "search q bound crossed capture s = search q bound crossed capture (advance s)"
        using lt False by (subst search.simps) simp
      have "\<exists>s'. search q bound crossed capture (advance s) = Inr s' \<and> Q s'"
        by (rule "1.IH"(2) [OF lt False cap adv fin adv [OF start lt]])
      with e show ?thesis by simp
    qed
  qed
qed


lemmas moves = advance_def leave_quarter_def note_crossing_def start_search_def

lemma counters_commute:
  "s\<lparr>tri_time_counter := a, time_counter := b\<rparr>
     = s\<lparr>time_counter := b, tri_time_counter := a\<rparr>"
  by (cases s) simp

lemma word_le_succ:
  fixes a b t :: u32
  assumes "t \<le> a" "a < b"
  shows "t \<le> a + 1"
  using assms by unat_arith

lemma quarter_rule:
  assumes est: "est = Inr t0"
    and ins: "\<And>s t tr. P s \<Longrightarrow> P (s\<lparr>time_counter := t, tri_time_counter := tr\<rparr>)"
    and insQ: "\<And>s t tr. Q s \<Longrightarrow> Q (s\<lparr>time_counter := t, tri_time_counter := tr\<rparr>)"
    and skip: "\<And>s. P s \<Longrightarrow> Q s"
    and cap: "\<And>s0. P s0 \<Longrightarrow> n s0 = n s \<Longrightarrow> t0 \<le> tri_time_counter s0 \<Longrightarrow>
        tri_time_counter s0 < bound \<Longrightarrow>
        time_counter s0 = of_nat (n s) * carrier_duration c + tri_time_counter s0 \<Longrightarrow>
        \<exists>s1. capture (note_crossing q s0) = Inr s1 \<and> Q s1 \<and> n s1 = n s"
    and P: "P s"
  shows "\<exists>s'. thn est (\<lambda>t. search q bound crossed capture (start_search c t s)) = Inr s'
           \<and> Q s' \<and> n s' = n s"
proof -
  let ?R = "\<lambda>s0. P s0 \<and> n s0 = n s \<and> t0 \<le> tri_time_counter s0
      \<and> time_counter s0 = of_nat (n s) * carrier_duration c + tri_time_counter s0"
  let ?Q = "\<lambda>s'. Q s' \<and> n s' = n s"
  have "\<exists>s'. search q bound crossed capture (start_search c t0 s) = Inr s' \<and> ?Q s'"
  proof (rule search_total [where R = ?R and Q = ?Q])
    fix s0 assume r: "?R s0" and lt: "tri_time_counter s0 < bound"
    from cap [of s0] r lt obtain s1 where
      c: "capture (note_crossing q s0) = Inr s1" and q: "Q s1" and n1: "n s1 = n s"
      by blast
    have "Q (leave_quarter bound s1)"
      unfolding leave_quarter_def by (rule insQ [OF q])
    with c n1 show "\<exists>s1. capture (note_crossing q s0) = Inr s1 \<and> ?Q (leave_quarter bound s1)"
      by (simp add: leave_quarter_def)
  next
    fix s0 assume r: "?R s0" and lt: "tri_time_counter s0 < bound"
    have "P (advance s0)"
      unfolding advance_def using r by (intro ins) simp
    moreover have "t0 \<le> tri_time_counter s0 + 1"
      using word_le_succ r lt by blast
    ultimately show "?R (advance s0)"
      using r by (simp add: advance_def)
  next
    fix s0 assume "?R s0" "\<not> tri_time_counter s0 < bound"
    then show "?Q s0" using skip by simp
  next
    have "P (s\<lparr>time_counter := of_nat (n s) * carrier_duration c + t0, tri_time_counter := t0\<rparr>)"
      by (rule ins [OF P])
    then have "P (start_search c t0 s)"
      by (simp add: start_search_def counters_commute)
    then show "?R (start_search c t0 s)"
      by (simp add: start_search_def)
  qed
  with est show ?thesis by simp
qed


lemma store_h1_Inr:
  "store_h1 i v s = Inr s' \<longleftrightarrow>
     0 \<le> i \<and> i < int (length (h1_table s)) \<and>
     s' = s\<lparr>h1_table := (h1_table s)[nat i := v], h1_written := insert (nat i) (h1_written s)\<rparr>"
  by (auto simp: store_h1_def)

lemma store_h2_Inr:
  "store_h2 i v s = Inr s' \<longleftrightarrow>
     0 \<le> i \<and> i < int (length (h2_table s)) \<and>
     s' = s\<lparr>h2_table := (h2_table s)[nat i := v], h2_written := insert (nat i) (h2_written s)\<rparr>"
  by (auto simp: store_h2_def)

lemmas captures = capture_q1_def capture_q2_def capture_q3_def capture_q4_def
  store_s1_def store_s2_def store_mid_end_def

lemma capture_n:
  "capture_q1 s = Inr s' \<Longrightarrow> n s' = n s"
  "capture_q2 c s = Inr s' \<Longrightarrow> n s' = n s"
  "capture_q3 s = Inr s' \<Longrightarrow> n s' = n s"
  "capture_q4 s = Inr s' \<Longrightarrow> n s' = n s"
  by (auto simp: captures thn_eq_Inr store_h1_Inr store_h2_Inr split: if_splits)

lemma estimate_total:
  assumes "estimable c" "n s < max_cycle_counts c"
  shows "\<exists>t. estimate_q1 c s = Inr t" "\<exists>t. estimate_q2 c s = Inr t"
    "\<exists>t. estimate_q3 c s = Inr t" "\<exists>t. estimate_q4 c s = Inr t"
  using assms unfolding estimable_def by blast+

lemma int_sub_Inr:
  assumes "- 2146483647 \<le> sint x"
  shows "int_sub scaling_factor x = Inr (scaling_factor - x)"
proof -
  have "sint x \<le> 2147483647" using sint_lt [of x] by simp
  with assms show ?thesis by (simp add: int_sub_def scaling_factor_def)
qed

lemma int_add_Inr:
  assumes "sint x \<le> 2146483647"
  shows "int_add scaling_factor x = Inr (scaling_factor + x)"
proof -
  have "- 2147483648 \<le> sint x" using sint_ge [of x] by simp
  with assms show ?thesis by (simp add: int_add_def scaling_factor_def)
qed

lemma estimable_samples:
  assumes slope: "carrier_slope c \<noteq> 0"
    and q1: "\<And>k. k < max_cycle_counts c \<Longrightarrow>
        - 2146483647 \<le> sint (s1_sample c (of_nat k * carrier_duration c
            + carrier_duration_quarter c))
        \<and> - 2146483647 \<le> sint (s2_sample c (of_nat k * carrier_duration c
            + carrier_duration_quarter c))"
    and q3: "\<And>k. k < max_cycle_counts c \<Longrightarrow>
        sint (s1_sample c (of_nat k * carrier_duration c + carrier_duration_3_quarter c))
          \<le> 2146483647
        \<and> sint (s2_sample c (of_nat k * carrier_duration c + carrier_duration_3_quarter c))
          \<le> 2146483647"
  shows "estimable c"
  unfolding estimable_def
proof (intro allI impI)
  fix s :: synth assume "n s < max_cycle_counts c"
  from q1 [OF this] q3 [OF this] slope
  show "(\<exists>t. estimate_q1 c s = Inr t) \<and> (\<exists>t. estimate_q2 c s = Inr t) \<and>
        (\<exists>t. estimate_q3 c s = Inr t) \<and> (\<exists>t. estimate_q4 c s = Inr t)"
    by (simp add: estimate_q1_def estimate_q2_def estimate_q3_def estimate_q4_def
        int_sub_Inr int_add_Inr sdiv32_def)
qed

lemma estimable_within:
  assumes "carrier_slope c \<noteq> 0"
    and "amplitude_within a (s1_sample c)" and "amplitude_within a (s2_sample c)"
    and "a \<le> 2146483647"
  shows "estimable c"
proof (rule estimable_samples [OF assms(1)])
  fix k
  let ?t = "of_nat k * carrier_duration c + carrier_duration_quarter c"
  from assms(2,3) have "- a \<le> sint (s1_sample c ?t)" "- a \<le> sint (s2_sample c ?t)"
    by (simp_all add: amplitude_within_def)
  with assms(4) show "- 2146483647 \<le> sint (s1_sample c ?t)
      \<and> - 2146483647 \<le> sint (s2_sample c ?t)" by linarith
next
  fix k
  let ?t = "of_nat k * carrier_duration c + carrier_duration_3_quarter c"
  from assms(2,3) have "sint (s1_sample c ?t) \<le> a" "sint (s2_sample c ?t) \<le> a"
    by (simp_all add: amplitude_within_def)
  with assms(4) show "sint (s1_sample c ?t) \<le> 2146483647
      \<and> sint (s2_sample c ?t) \<le> 2146483647" by linarith
qed

lemma estimate_n:
  assumes "n s0 = n s"
  shows "estimate_q1 c s0 = estimate_q1 c s" "estimate_q2 c s0 = estimate_q2 c s"
    "estimate_q3 c s0 = estimate_q3 c s" "estimate_q4 c s0 = estimate_q4 c s"
  using assms
  by (simp_all add: estimate_q1_def estimate_q2_def estimate_q3_def estimate_q4_def)

lemma cycle_rule:
  assumes slope: "estimable c"
    and ins: "\<And>u1 u2 s t tr. I u1 u2 s \<Longrightarrow>
        I u1 u2 (s\<lparr>time_counter := t, tri_time_counter := tr\<rparr>)"
    and skip1: "\<And>u1 u2 s. I u1 u2 s \<Longrightarrow> I (u1 + 1) u2 s"
    and skip2: "\<And>u1 u2 s. I u1 u2 s \<Longrightarrow> I u1 (u2 + 1) s"
    and cap1: "\<And>s t0. n s < max_cycle_counts c \<Longrightarrow> I (2 * n s) (2 * n s) s \<Longrightarrow>
        estimate_q1 c s = Inr t0 \<Longrightarrow> t0 \<le> tri_time_counter s \<Longrightarrow>
        tri_time_counter s < carrier_duration_quarter c \<Longrightarrow>
        time_counter s = of_nat (n s) * carrier_duration c + tri_time_counter s \<Longrightarrow>
        \<exists>s1. capture_q1 (note_crossing 1 s) = Inr s1 \<and> I (2 * n s + 1) (2 * n s) s1"
    and cap2: "\<And>s t0. n s < max_cycle_counts c \<Longrightarrow> I (2 * n s + 1) (2 * n s) s \<Longrightarrow>
        estimate_q2 c s = Inr t0 \<Longrightarrow> t0 \<le> tri_time_counter s \<Longrightarrow>
        tri_time_counter s < carrier_duration_half c \<Longrightarrow>
        time_counter s = of_nat (n s) * carrier_duration c + tri_time_counter s \<Longrightarrow>
        \<exists>s1. capture_q2 c (note_crossing 2 s) = Inr s1 \<and> I (2 * n s + 1) (2 * n s + 1) s1"
    and cap3: "\<And>s t0. n s < max_cycle_counts c \<Longrightarrow> I (2 * n s + 1) (2 * n s + 1) s \<Longrightarrow>
        estimate_q3 c s = Inr t0 \<Longrightarrow> t0 \<le> tri_time_counter s \<Longrightarrow>
        tri_time_counter s < carrier_duration_3_quarter c \<Longrightarrow>
        time_counter s = of_nat (n s) * carrier_duration c + tri_time_counter s \<Longrightarrow>
        \<exists>s1. capture_q3 (note_crossing 3 s) = Inr s1 \<and> I (2 * n s + 1) (2 * n s + 2) s1"
    and cap4: "\<And>s t0. n s < max_cycle_counts c \<Longrightarrow> I (2 * n s + 1) (2 * n s + 2) s \<Longrightarrow>
        estimate_q4 c s = Inr t0 \<Longrightarrow> t0 \<le> tri_time_counter s \<Longrightarrow>
        tri_time_counter s < carrier_duration c \<Longrightarrow>
        time_counter s = of_nat (n s) * carrier_duration c + tri_time_counter s \<Longrightarrow>
        \<exists>s1. capture_q4 (note_crossing 4 s) = Inr s1 \<and> I (2 * n s + 2) (2 * n s + 2) s1"
    and start: "I (2 * n s) (2 * n s) s" "n s < max_cycle_counts c"
  shows "\<exists>s'. carrier_cycle c s = Inr s' \<and> I (2 * n s + 2) (2 * n s + 2) s' \<and> n s' = n s"
proof -
  from estimate_total(1) [OF slope start(2)] obtain t1 where e1: "estimate_q1 c s = Inr t1" by blast
  have "\<exists>s'. thn (estimate_q1 c s) (\<lambda>t. search 1 (carrier_duration_quarter c) (crossed_q1 c)
            capture_q1 (start_search c t s)) = Inr s'
          \<and> I (2 * n s + 1) (2 * n s) s' \<and> n s' = n s"
  proof (rule quarter_rule [where P = "I (2 * n s) (2 * n s)" and ?t0.0 = t1])
    fix s0
    assume a: "I (2 * n s) (2 * n s) s0" "n s0 = n s" "t1 \<le> tri_time_counter s0"
      "tri_time_counter s0 < carrier_duration_quarter c"
      "time_counter s0 = of_nat (n s) * carrier_duration c + tri_time_counter s0"
    have "\<exists>s1. capture_q1 (note_crossing 1 s0) = Inr s1 \<and> I (2 * n s0 + 1) (2 * n s0) s1"
      using a start(2) e1 estimate_n(1) [OF a(2), of c] by (intro cap1 [where ?t0.0 = t1]) simp_all
    then obtain s1 where c: "capture_q1 (note_crossing 1 s0) = Inr s1"
      and i: "I (2 * n s0 + 1) (2 * n s0) s1" by blast
    from capture_n(1) [OF c] a(2) have "n s1 = n s" by (simp add: note_crossing_def)
    with c i a(2) show "\<exists>s1. capture_q1 (note_crossing 1 s0) = Inr s1
        \<and> I (2 * n s + 1) (2 * n s) s1 \<and> n s1 = n s" by simp
  qed (use e1 ins skip1 start in auto)
  then obtain sa where ra: "first_quarter c s = Inr sa" and ia: "I (2 * n s + 1) (2 * n s) sa"
    and na: "n sa = n s"
    by (auto simp: first_quarter_def)
  from estimate_total(2) [OF slope, of sa] start(2) na
  obtain t2 where e2: "estimate_q2 c sa = Inr t2" by auto
  have "\<exists>s'. thn (estimate_q2 c sa) (\<lambda>t. search 2 (carrier_duration_half c) (crossed_q2 c)
            (capture_q2 c) (start_search c t sa)) = Inr s'
          \<and> I (2 * n s + 1) (2 * n s + 1) s' \<and> n s' = n sa"
  proof (rule quarter_rule [where P = "I (2 * n s + 1) (2 * n s)" and ?t0.0 = t2])
    fix s0
    assume a: "I (2 * n s + 1) (2 * n s) s0" "n s0 = n sa" "t2 \<le> tri_time_counter s0"
      "tri_time_counter s0 < carrier_duration_half c"
      "time_counter s0 = of_nat (n sa) * carrier_duration c + tri_time_counter s0"
    have "\<exists>s1. capture_q2 c (note_crossing 2 s0) = Inr s1 \<and> I (2 * n s0 + 1) (2 * n s0 + 1) s1"
      using a start(2) e2 na estimate_n(2) [OF a(2), of c]
      by (intro cap2 [where ?t0.0 = t2]) simp_all
    then obtain s1 where c: "capture_q2 c (note_crossing 2 s0) = Inr s1"
      and i: "I (2 * n s0 + 1) (2 * n s0 + 1) s1" by blast
    from capture_n(2) [OF c] a(2) have "n s1 = n sa" by (simp add: note_crossing_def)
    with c i a(2) na show "\<exists>s1. capture_q2 c (note_crossing 2 s0) = Inr s1
        \<and> I (2 * n s + 1) (2 * n s + 1) s1 \<and> n s1 = n sa" by simp
  qed (use e2 ins skip2 ia in auto)
  then obtain sb where rb: "second_quarter c sa = Inr sb"
    and ib: "I (2 * n s + 1) (2 * n s + 1) sb" and nb: "n sb = n s"
    using na by (auto simp: second_quarter_def)
  from estimate_total(3) [OF slope, of sb] start(2) nb
  obtain t3 where e3: "estimate_q3 c sb = Inr t3" by auto
  have "\<exists>s'. thn (estimate_q3 c sb) (\<lambda>t. search 3 (carrier_duration_3_quarter c) (crossed_q3 c)
            capture_q3 (start_search c t sb)) = Inr s'
          \<and> I (2 * n s + 1) (2 * n s + 2) s' \<and> n s' = n sb"
  proof (rule quarter_rule [where P = "I (2 * n s + 1) (2 * n s + 1)" and ?t0.0 = t3])
    fix s0
    assume a: "I (2 * n s + 1) (2 * n s + 1) s0" "n s0 = n sb" "t3 \<le> tri_time_counter s0"
      "tri_time_counter s0 < carrier_duration_3_quarter c"
      "time_counter s0 = of_nat (n sb) * carrier_duration c + tri_time_counter s0"
    have "\<exists>s1. capture_q3 (note_crossing 3 s0) = Inr s1 \<and> I (2 * n s0 + 1) (2 * n s0 + 2) s1"
      using a start(2) e3 nb estimate_n(3) [OF a(2), of c]
      by (intro cap3 [where ?t0.0 = t3]) simp_all
    then obtain s1 where c: "capture_q3 (note_crossing 3 s0) = Inr s1"
      and i: "I (2 * n s0 + 1) (2 * n s0 + 2) s1" by blast
    from capture_n(3) [OF c] a(2) have "n s1 = n sb" by (simp add: note_crossing_def)
    with c i a(2) nb show "\<exists>s1. capture_q3 (note_crossing 3 s0) = Inr s1
        \<and> I (2 * n s + 1) (2 * n s + 2) s1 \<and> n s1 = n sb" by simp
  next
    fix s0 assume "I (2 * n s + 1) (2 * n s + 1) s0"
    from skip2 [OF this] show "I (2 * n s + 1) (2 * n s + 2) s0" by (simp add: numeral_2_eq_2)
  qed (use e3 ins ib in auto)
  then obtain sc where rc: "third_quarter c sb = Inr sc"
    and ic: "I (2 * n s + 1) (2 * n s + 2) sc" and nc: "n sc = n s"
    using nb by (auto simp: third_quarter_def)
  from estimate_total(4) [OF slope, of sc] start(2) nc
  obtain t4 where e4: "estimate_q4 c sc = Inr t4" by auto
  have "\<exists>s'. thn (estimate_q4 c sc) (\<lambda>t. search 4 (carrier_duration c) (crossed_q4 c)
            capture_q4 (start_search c t sc)) = Inr s'
          \<and> I (2 * n s + 2) (2 * n s + 2) s' \<and> n s' = n sc"
  proof (rule quarter_rule [where P = "I (2 * n s + 1) (2 * n s + 2)" and ?t0.0 = t4])
    fix s0
    assume a: "I (2 * n s + 1) (2 * n s + 2) s0" "n s0 = n sc" "t4 \<le> tri_time_counter s0"
      "tri_time_counter s0 < carrier_duration c"
      "time_counter s0 = of_nat (n sc) * carrier_duration c + tri_time_counter s0"
    have "\<exists>s1. capture_q4 (note_crossing 4 s0) = Inr s1 \<and> I (2 * n s0 + 2) (2 * n s0 + 2) s1"
      using a start(2) e4 nc estimate_n(4) [OF a(2), of c]
      by (intro cap4 [where ?t0.0 = t4]) simp_all
    then obtain s1 where c: "capture_q4 (note_crossing 4 s0) = Inr s1"
      and i: "I (2 * n s0 + 2) (2 * n s0 + 2) s1" by blast
    from capture_n(4) [OF c] a(2) have "n s1 = n sc" by (simp add: note_crossing_def)
    with c i a(2) nc show "\<exists>s1. capture_q4 (note_crossing 4 s0) = Inr s1
        \<and> I (2 * n s + 2) (2 * n s + 2) s1 \<and> n s1 = n sc" by simp
  next
    fix s0 assume "I (2 * n s + 1) (2 * n s + 2) s0"
    from skip1 [OF this] show "I (2 * n s + 2) (2 * n s + 2) s0" by (simp add: numeral_2_eq_2)
  qed (use e4 ins ic in auto)
  then obtain sd where rd: "fourth_quarter c sc = Inr sd"
    and id: "I (2 * n s + 2) (2 * n s + 2) sd" and nd: "n sd = n s"
    using nc by (auto simp: fourth_quarter_def)
  from ra rb rc rd id nd show ?thesis
    by (simp add: carrier_cycle_def)
qed


lemma cycles_rule:
  assumes slope: "estimable c"
    and ins: "\<And>u1 u2 s t tr. I u1 u2 s \<Longrightarrow>
        I u1 u2 (s\<lparr>time_counter := t, tri_time_counter := tr\<rparr>)"
    and insn: "\<And>u1 u2 s k. I u1 u2 s \<Longrightarrow> I u1 u2 (s\<lparr>n := k\<rparr>)"
    and skip1: "\<And>u1 u2 s. I u1 u2 s \<Longrightarrow> I (u1 + 1) u2 s"
    and skip2: "\<And>u1 u2 s. I u1 u2 s \<Longrightarrow> I u1 (u2 + 1) s"
    and cap1: "\<And>s t0. n s < max_cycle_counts c \<Longrightarrow> I (2 * n s) (2 * n s) s \<Longrightarrow>
        estimate_q1 c s = Inr t0 \<Longrightarrow> t0 \<le> tri_time_counter s \<Longrightarrow>
        tri_time_counter s < carrier_duration_quarter c \<Longrightarrow>
        time_counter s = of_nat (n s) * carrier_duration c + tri_time_counter s \<Longrightarrow>
        \<exists>s1. capture_q1 (note_crossing 1 s) = Inr s1 \<and> I (2 * n s + 1) (2 * n s) s1"
    and cap2: "\<And>s t0. n s < max_cycle_counts c \<Longrightarrow> I (2 * n s + 1) (2 * n s) s \<Longrightarrow>
        estimate_q2 c s = Inr t0 \<Longrightarrow> t0 \<le> tri_time_counter s \<Longrightarrow>
        tri_time_counter s < carrier_duration_half c \<Longrightarrow>
        time_counter s = of_nat (n s) * carrier_duration c + tri_time_counter s \<Longrightarrow>
        \<exists>s1. capture_q2 c (note_crossing 2 s) = Inr s1 \<and> I (2 * n s + 1) (2 * n s + 1) s1"
    and cap3: "\<And>s t0. n s < max_cycle_counts c \<Longrightarrow> I (2 * n s + 1) (2 * n s + 1) s \<Longrightarrow>
        estimate_q3 c s = Inr t0 \<Longrightarrow> t0 \<le> tri_time_counter s \<Longrightarrow>
        tri_time_counter s < carrier_duration_3_quarter c \<Longrightarrow>
        time_counter s = of_nat (n s) * carrier_duration c + tri_time_counter s \<Longrightarrow>
        \<exists>s1. capture_q3 (note_crossing 3 s) = Inr s1 \<and> I (2 * n s + 1) (2 * n s + 2) s1"
    and cap4: "\<And>s t0. n s < max_cycle_counts c \<Longrightarrow> I (2 * n s + 1) (2 * n s + 2) s \<Longrightarrow>
        estimate_q4 c s = Inr t0 \<Longrightarrow> t0 \<le> tri_time_counter s \<Longrightarrow>
        tri_time_counter s < carrier_duration c \<Longrightarrow>
        time_counter s = of_nat (n s) * carrier_duration c + tri_time_counter s \<Longrightarrow>
        \<exists>s1. capture_q4 (note_crossing 4 s) = Inr s1 \<and> I (2 * n s + 2) (2 * n s + 2) s1"
    and start: "I (2 * n s) (2 * n s) s" "n s \<le> max_cycle_counts c"
  shows "\<exists>s'. cycles c s = Inr s'
           \<and> I (2 * max_cycle_counts c) (2 * max_cycle_counts c) s'
           \<and> n s' = max_cycle_counts c"
  using start
proof (induction "max_cycle_counts c - n s" arbitrary: s)
  case 0
  then have e: "n s = max_cycle_counts c" by simp
  then have "cycles c s = Inr s"
    by (subst cycles.simps) simp
  with 0 e show ?case by simp
next
  case (Suc k)
  then have lt: "n s < max_cycle_counts c" by simp
  have "\<exists>s'. carrier_cycle c s = Inr s' \<and> I (2 * n s + 2) (2 * n s + 2) s' \<and> n s' = n s"
    by (rule cycle_rule [where I = I])
      (fact slope, erule ins, erule skip1, erule skip2, (rule cap1; assumption),
        (rule cap2; assumption), (rule cap3; assumption), (rule cap4; assumption),
        fact Suc.prems(1), fact lt)
  then obtain s1 where r: "carrier_cycle c s = Inr s1"
    and i: "I (2 * n s + 2) (2 * n s + 2) s1" and n1: "n s1 = n s"
    by blast
  let ?s = "s1\<lparr>n := n s + 1\<rparr>"
  have e: "cycles c s = cycles c ?s"
    using lt r by (subst cycles.simps) simp
  have i': "I (2 * n ?s) (2 * n ?s) ?s"
    using insn [OF i, of "n s + 1"] by simp
  have "\<exists>s'. cycles c ?s = Inr s'
           \<and> I (2 * max_cycle_counts c) (2 * max_cycle_counts c) s'
           \<and> n s' = max_cycle_counts c"
    using Suc.hyps(2) lt by (intro Suc.hyps(1) i') simp_all
  with e show ?case by simp
qed


lemma store_s1_total:
  assumes "coupled c s" "p_h1_ref1 s \<le> int (mf c) - 2"
  shows "\<exists>s'. store_s1 r s = Inr s'"
  using assms by (simp add: store_s1_def store_h1_def store_h2_def coupled_def)

lemma store_s2_total:
  assumes "coupled c s" "p_h2_ref1 s \<le> int (mf c) - 2"
  shows "\<exists>s'. store_s2 r s = Inr s'"
  using assms by (simp add: store_s2_def store_h1_def store_h2_def coupled_def)

lemma store_mid_end_total:
  assumes "coupled c s" "1 \<le> mf c"
  shows "\<exists>s'. store_mid_end c r s = Inr s'"
proof -
  have "0 \<le> array_mid_point c" "array_mid_point c < 2 * int (mf c)"
    "0 \<le> array_end_point c" "array_end_point c < 2 * int (mf c)"
    using assms(2) by (simp_all add: array_mid_point_def array_end_point_def
        zmod_le_nonneg_dividend [THEN order.strict_trans1])
  with assms(1) show ?thesis
    by (simp add: store_mid_end_def store_h1_def store_h2_def coupled_def)
qed

lemma store_s1_fields:
  assumes "store_s1 r s = Inr s'"
  shows "h1_table s' = (h1_table s)[nat (p_h1_ref1 s) := r, nat (p_h1_ref2 s) := r]"
    "h2_table s' = (h2_table s)[nat (p_h2_ref3 s) := r, nat (p_h2_ref4 s) := r]"
    "h1_written s' = insert (nat (p_h1_ref2 s)) (insert (nat (p_h1_ref1 s)) (h1_written s))"
    "h2_written s' = insert (nat (p_h2_ref4 s)) (insert (nat (p_h2_ref3 s)) (h2_written s))"
    "p_h1_ref1 s' = p_h1_ref1 s + 1" "p_h1_ref2 s' = p_h1_ref2 s - 1"
    "p_h2_ref3 s' = p_h2_ref3 s + 1" "p_h2_ref4 s' = p_h2_ref4 s - 1"
    "p_h2_ref1 s' = p_h2_ref1 s" "p_h2_ref2 s' = p_h2_ref2 s"
    "p_h1_ref3 s' = p_h1_ref3 s" "p_h1_ref4 s' = p_h1_ref4 s"
    "h1_sync s' = h1_sync s" "h2_sync s' = h2_sync s"
    "s1_sync_captured s' = s1_sync_captured s" "s2_sync_captured s' = s2_sync_captured s"
    "h1_high_val_old s' = h1_high_val_old s" "h2_high_val_old s' = h2_high_val_old s"
    "time_counter s' = time_counter s" "tri_time_counter s' = tri_time_counter s"
    "n s' = n s" "crossing_ticks s' = crossing_ticks s"
  using assms
  by (auto simp: store_s1_def thn_eq_Inr store_h1_Inr store_h2_Inr)

lemma store_s2_fields:
  assumes "store_s2 r s = Inr s'"
  shows "h2_table s' = (h2_table s)[nat (p_h2_ref1 s) := r, nat (p_h2_ref2 s) := r]"
    "h1_table s' = (h1_table s)[nat (p_h1_ref3 s) := r, nat (p_h1_ref4 s) := r]"
    "h2_written s' = insert (nat (p_h2_ref2 s)) (insert (nat (p_h2_ref1 s)) (h2_written s))"
    "h1_written s' = insert (nat (p_h1_ref4 s)) (insert (nat (p_h1_ref3 s)) (h1_written s))"
    "p_h2_ref1 s' = p_h2_ref1 s + 1" "p_h2_ref2 s' = p_h2_ref2 s - 1"
    "p_h1_ref3 s' = p_h1_ref3 s + 1" "p_h1_ref4 s' = p_h1_ref4 s - 1"
    "p_h1_ref1 s' = p_h1_ref1 s" "p_h1_ref2 s' = p_h1_ref2 s"
    "p_h2_ref3 s' = p_h2_ref3 s" "p_h2_ref4 s' = p_h2_ref4 s"
    "h1_sync s' = h1_sync s" "h2_sync s' = h2_sync s"
    "s1_sync_captured s' = s1_sync_captured s" "s2_sync_captured s' = s2_sync_captured s"
    "h1_high_val_old s' = h1_high_val_old s" "h2_high_val_old s' = h2_high_val_old s"
    "time_counter s' = time_counter s" "tri_time_counter s' = tri_time_counter s"
    "n s' = n s" "crossing_ticks s' = crossing_ticks s"
  using assms
  by (auto simp: store_s2_def thn_eq_Inr store_h1_Inr store_h2_Inr)

lemma store_mid_end_fields:
  assumes "store_mid_end c r s = Inr s'"
  shows "h1_table s' = (h1_table s)[nat (array_mid_point c) := r, nat (array_end_point c) := r]"
    "h2_table s' = (h2_table s)[nat (array_mid_point c) := r, nat (array_end_point c) := r]"
    "h1_written s' = insert (nat (array_end_point c)) (insert (nat (array_mid_point c)) (h1_written s))"
    "h2_written s' = insert (nat (array_end_point c)) (insert (nat (array_mid_point c)) (h2_written s))"
    "p_h1_ref1 s' = p_h1_ref1 s" "p_h1_ref2 s' = p_h1_ref2 s"
    "p_h2_ref3 s' = p_h2_ref3 s" "p_h2_ref4 s' = p_h2_ref4 s"
    "p_h2_ref1 s' = p_h2_ref1 s" "p_h2_ref2 s' = p_h2_ref2 s"
    "p_h1_ref3 s' = p_h1_ref3 s" "p_h1_ref4 s' = p_h1_ref4 s"
    "h1_sync s' = h1_sync s" "h2_sync s' = h2_sync s"
    "s1_sync_captured s' = s1_sync_captured s" "s2_sync_captured s' = s2_sync_captured s"
    "h1_high_val_old s' = h1_high_val_old s" "h2_high_val_old s' = h2_high_val_old s"
    "time_counter s' = time_counter s" "tri_time_counter s' = tri_time_counter s"
    "n s' = n s" "crossing_ticks s' = crossing_ticks s"
  using assms
  by (auto simp: store_mid_end_def thn_eq_Inr store_h1_Inr store_h2_Inr)


lemma capture_q1_cases:
  assumes "capture_q1 s = Inr s'"
  obtains (sync) "\<not> s1_sync_captured s"
      "s' = s\<lparr>h1_sync := time_counter s, s1_sync_captured := True,
              h1_high_val_old := time_counter s\<rparr>"
    | (store) s1 where "s1_sync_captured s"
      "store_s1 (time_counter s - h1_high_val_old s) s = Inr s1"
      "s' = s1\<lparr>h1_high_val_old := time_counter s\<rparr>"
  using assms
  by (auto simp: capture_q1_def thn_eq_Inr store_s1_fields split: if_splits)

lemma capture_q2_cases:
  assumes "capture_q2 c s = Inr s'"
  obtains (sync) s1 where "\<not> s2_sync_captured s"
      "store_mid_end c (h1_sync s + time_counter s) (s\<lparr>h2_sync := time_counter s\<rparr>) = Inr s1"
      "s' = s1\<lparr>s2_sync_captured := True, h2_high_val_old := time_counter s\<rparr>"
    | (store) s1 where "s2_sync_captured s"
      "store_s2 (time_counter s - h2_high_val_old s) s = Inr s1"
      "s' = s1\<lparr>h2_high_val_old := time_counter s\<rparr>"
  using assms
  by (auto simp: capture_q2_def thn_eq_Inr store_s2_fields store_mid_end_fields split: if_splits)

lemma capture_q3_cases:
  assumes "capture_q3 s = Inr s'"
  obtains s1 where "store_s2 (time_counter s - h2_high_val_old s) s = Inr s1"
      "s' = s1\<lparr>h2_high_val_old := time_counter s\<rparr>"
  using assms
  by (auto simp: capture_q3_def thn_eq_Inr store_s2_fields)

lemma capture_q4_cases:
  assumes "capture_q4 s = Inr s'"
  obtains s1 where "store_s1 (time_counter s - h1_high_val_old s) s = Inr s1"
      "s' = s1\<lparr>h1_high_val_old := time_counter s\<rparr>"
  using assms
  by (auto simp: capture_q4_def thn_eq_Inr store_s1_fields)

lemma sound_counters [simp]:
  "sound c u1 u2 (s\<lparr>time_counter := t, tri_time_counter := tr\<rparr>) = sound c u1 u2 s"
  "sound c u1 u2 (s\<lparr>n := k\<rparr>) = sound c u1 u2 s"
  "sound c u1 u2 (note_crossing q s) = sound c u1 u2 s"
  by (simp_all add: sound_def coupled_def events1_def events2_def note_crossing_def)

lemma sound_mono:
  "sound c u1 u2 s \<Longrightarrow> u1 \<le> v1 \<Longrightarrow> u2 \<le> v2 \<Longrightarrow> sound c v1 v2 s"
  by (simp add: sound_def)

lemma quarter_le: "4 * (m div 4) \<le> (m :: nat)"
  by simp

lemma sound_store_s1:
  assumes "sound c u1 u2 s" "nat (p_h1_ref1 s) + 1 < 2 * (mf c div 4) + 1"
  shows "\<exists>s1. store_s1 r s = Inr s1 \<and> coupled c s1
           \<and> events1 s1 = events1 s + 1 \<and> events2 s1 = events2 s"
proof -
  have c: "coupled c s" using assms(1) by (simp add: sound_def)
  have "p_h1_ref1 s \<le> int (mf c) - 2"
    using assms(2) quarter_le [of "mf c"] c by (simp add: coupled_def)
  from store_s1_total [OF c this] obtain s1 where r: "store_s1 r s = Inr s1" by blast
  have "coupled c s1"
    using c by (simp add: coupled_def store_s1_fields [OF r])
  moreover have "events1 s1 = events1 s + 1" "events2 s1 = events2 s"
    using c by (simp_all add: coupled_def events1_def events2_def store_s1_fields [OF r] nat_add_distrib)
  ultimately show ?thesis using r by simp
qed

lemma sound_store_s2:
  assumes "sound c u1 u2 s" "nat (p_h2_ref1 s) + 1 < 2 * (mf c div 4) + 1"
  shows "\<exists>s1. store_s2 r s = Inr s1 \<and> coupled c s1
           \<and> events2 s1 = events2 s + 1 \<and> events1 s1 = events1 s"
proof -
  have c: "coupled c s" using assms(1) by (simp add: sound_def)
  have "p_h2_ref1 s \<le> int (mf c) - 2"
    using assms(2) quarter_le [of "mf c"] c by (simp add: coupled_def)
  from store_s2_total [OF c this] obtain s1 where r: "store_s2 r s = Inr s1" by blast
  have "coupled c s1"
    using c by (simp add: coupled_def store_s2_fields [OF r])
  moreover have "events2 s1 = events2 s + 1" "events1 s1 = events1 s"
    using c by (simp_all add: coupled_def events1_def events2_def store_s2_fields [OF r] nat_add_distrib)
  ultimately show ?thesis using r by simp
qed

lemma sound_cap1:
  assumes "sound c u1 u2 s" "u1 < 2 * (mf c div 4)"
  shows "\<exists>s1. capture_q1 s = Inr s1 \<and> sound c (u1 + 1) u2 s1"
proof (cases "s1_sync_captured s")
  case False
  with assms show ?thesis
    by (simp add: capture_q1_def sound_def coupled_def events1_def events2_def)
next
  case True
  with assms have "nat (p_h1_ref1 s) + 1 < 2 * (mf c div 4) + 1"
    by (simp add: sound_def events1_def)
  from sound_store_s1 [OF assms(1) this]
  obtain s1 where "store_s1 (time_counter s - h1_high_val_old s) s = Inr s1" "coupled c s1"
    "events1 s1 = events1 s + 1" "events2 s1 = events2 s" by blast
  with True assms show ?thesis
    by (simp add: capture_q1_def sound_def coupled_def events1_def events2_def)
qed

lemma sound_cap4:
  assumes "sound c u1 u2 s" "u1 < 2 * (mf c div 4)"
  shows "\<exists>s1. capture_q4 s = Inr s1 \<and> sound c (u1 + 1) u2 s1"
proof -
  from assms have "nat (p_h1_ref1 s) + 1 < 2 * (mf c div 4) + 1"
    by (simp add: sound_def events1_def split: if_splits)
  from sound_store_s1 [OF assms(1) this]
  obtain s1 where "store_s1 (time_counter s - h1_high_val_old s) s = Inr s1" "coupled c s1"
    "events1 s1 = events1 s + 1" "events2 s1 = events2 s" by blast
  with assms show ?thesis
    by (simp add: capture_q4_def sound_def coupled_def events1_def events2_def)
qed

lemma sound_cap3:
  assumes "sound c u1 u2 s" "u2 < 2 * (mf c div 4)"
  shows "\<exists>s1. capture_q3 s = Inr s1 \<and> sound c u1 (u2 + 1) s1"
proof -
  from assms have "nat (p_h2_ref1 s) + 1 < 2 * (mf c div 4) + 1"
    by (simp add: sound_def events2_def split: if_splits)
  from sound_store_s2 [OF assms(1) this]
  obtain s1 where "store_s2 (time_counter s - h2_high_val_old s) s = Inr s1" "coupled c s1"
    "events2 s1 = events2 s + 1" "events1 s1 = events1 s" by blast
  with assms show ?thesis
    by (simp add: capture_q3_def sound_def coupled_def events1_def events2_def)
qed

lemma sound_cap2:
  assumes "sound c u1 u2 s" "u2 < 2 * (mf c div 4)"
  shows "\<exists>s1. capture_q2 c s = Inr s1 \<and> sound c u1 (u2 + 1) s1"
proof (cases "s2_sync_captured s")
  case False
  have c: "coupled c (s\<lparr>h2_sync := time_counter s\<rparr>)"
    using assms(1) by (simp add: sound_def coupled_def)
  have "1 \<le> mf c" using assms(2) by (cases "mf c") simp_all
  from store_mid_end_total [OF c this]
  obtain s1 where r: "store_mid_end c (h1_sync s + time_counter s) (s\<lparr>h2_sync := time_counter s\<rparr>) = Inr s1"
    by blast
  with False assms show ?thesis
    by (simp add: capture_q2_def sound_def coupled_def events1_def events2_def
        store_mid_end_fields [OF r])
next
  case True
  with assms have "nat (p_h2_ref1 s) + 1 < 2 * (mf c div 4) + 1"
    by (simp add: sound_def events2_def)
  from sound_store_s2 [OF assms(1) this]
  obtain s1 where "store_s2 (time_counter s - h2_high_val_old s) s = Inr s1" "coupled c s1"
    "events2 s1 = events2 s + 1" "events1 s1 = events1 s" by blast
  with True assms show ?thesis
    by (simp add: capture_q2_def sound_def coupled_def events1_def events2_def)
qed

lemma sound_cycles:
  assumes slope: "estimable c"
    and start: "sound c (2 * n s) (2 * n s) s" "n s \<le> max_cycle_counts c"
  shows "\<exists>s'. cycles c s = Inr s'
           \<and> sound c (2 * max_cycle_counts c) (2 * max_cycle_counts c) s'
           \<and> n s' = max_cycle_counts c"
proof (rule cycles_rule [where I = "sound c"])
  fix s t0 assume "n s < max_cycle_counts c" "sound c (2 * n s) (2 * n s) s"
  then show "\<exists>s1. capture_q1 (note_crossing 1 s) = Inr s1 \<and> sound c (2 * n s + 1) (2 * n s) s1"
    by (intro sound_cap1) (simp_all add: max_cycle_counts_def)
next
  fix s t0 assume "n s < max_cycle_counts c" "sound c (2 * n s + 1) (2 * n s) s"
  then show "\<exists>s1. capture_q2 c (note_crossing 2 s) = Inr s1 \<and> sound c (2 * n s + 1) (2 * n s + 1) s1"
    by (intro sound_cap2) (simp_all add: max_cycle_counts_def)
next
  fix s t0 assume "n s < max_cycle_counts c" "sound c (2 * n s + 1) (2 * n s + 1) s"
  then have "\<exists>s1. capture_q3 (note_crossing 3 s) = Inr s1 \<and> sound c (2 * n s + 1) (2 * n s + 1 + 1) s1"
    by (intro sound_cap3) (simp_all add: max_cycle_counts_def)
  then show "\<exists>s1. capture_q3 (note_crossing 3 s) = Inr s1 \<and> sound c (2 * n s + 1) (2 * n s + 2) s1"
    by simp
next
  fix s t0 assume "n s < max_cycle_counts c" "sound c (2 * n s + 1) (2 * n s + 2) s"
  then have "\<exists>s1. capture_q4 (note_crossing 4 s) = Inr s1 \<and> sound c (2 * n s + 1 + 1) (2 * n s + 2) s1"
    by (intro sound_cap4) (simp_all add: max_cycle_counts_def)
  then show "\<exists>s1. capture_q4 (note_crossing 4 s) = Inr s1 \<and> sound c (2 * n s + 2) (2 * n s + 2) s1"
    by simp
qed (use assms in \<open>auto intro: sound_mono\<close>)


lemma cycles_rule_sound:
  assumes slope: "estimable c"
    and ins: "\<And>u1 u2 s t tr. E u1 u2 s \<Longrightarrow>
        E u1 u2 (s\<lparr>time_counter := t, tri_time_counter := tr\<rparr>)"
    and insn: "\<And>u1 u2 s k. E u1 u2 s \<Longrightarrow> E u1 u2 (s\<lparr>n := k\<rparr>)"
    and skip1: "\<And>u1 u2 s. E u1 u2 s \<Longrightarrow> E (u1 + 1) u2 s"
    and skip2: "\<And>u1 u2 s. E u1 u2 s \<Longrightarrow> E u1 (u2 + 1) s"
    and cap1: "\<And>s t0 s1. n s < max_cycle_counts c \<Longrightarrow> sound c (2 * n s) (2 * n s) s \<Longrightarrow>
        E (2 * n s) (2 * n s) s \<Longrightarrow>
        estimate_q1 c s = Inr t0 \<Longrightarrow> t0 \<le> tri_time_counter s \<Longrightarrow>
        tri_time_counter s < carrier_duration_quarter c \<Longrightarrow>
        time_counter s = of_nat (n s) * carrier_duration c + tri_time_counter s \<Longrightarrow>
        capture_q1 (note_crossing 1 s) = Inr s1 \<Longrightarrow> sound c (2 * n s + 1) (2 * n s) s1 \<Longrightarrow>
        E (2 * n s + 1) (2 * n s) s1"
    and cap2: "\<And>s t0 s1. n s < max_cycle_counts c \<Longrightarrow> sound c (2 * n s + 1) (2 * n s) s \<Longrightarrow>
        E (2 * n s + 1) (2 * n s) s \<Longrightarrow>
        estimate_q2 c s = Inr t0 \<Longrightarrow> t0 \<le> tri_time_counter s \<Longrightarrow>
        tri_time_counter s < carrier_duration_half c \<Longrightarrow>
        time_counter s = of_nat (n s) * carrier_duration c + tri_time_counter s \<Longrightarrow>
        capture_q2 c (note_crossing 2 s) = Inr s1 \<Longrightarrow> sound c (2 * n s + 1) (2 * n s + 1) s1 \<Longrightarrow>
        E (2 * n s + 1) (2 * n s + 1) s1"
    and cap3: "\<And>s t0 s1. n s < max_cycle_counts c \<Longrightarrow> sound c (2 * n s + 1) (2 * n s + 1) s \<Longrightarrow>
        E (2 * n s + 1) (2 * n s + 1) s \<Longrightarrow>
        estimate_q3 c s = Inr t0 \<Longrightarrow> t0 \<le> tri_time_counter s \<Longrightarrow>
        tri_time_counter s < carrier_duration_3_quarter c \<Longrightarrow>
        time_counter s = of_nat (n s) * carrier_duration c + tri_time_counter s \<Longrightarrow>
        capture_q3 (note_crossing 3 s) = Inr s1 \<Longrightarrow> sound c (2 * n s + 1) (2 * n s + 2) s1 \<Longrightarrow>
        E (2 * n s + 1) (2 * n s + 2) s1"
    and cap4: "\<And>s t0 s1. n s < max_cycle_counts c \<Longrightarrow> sound c (2 * n s + 1) (2 * n s + 2) s \<Longrightarrow>
        E (2 * n s + 1) (2 * n s + 2) s \<Longrightarrow>
        estimate_q4 c s = Inr t0 \<Longrightarrow> t0 \<le> tri_time_counter s \<Longrightarrow>
        tri_time_counter s < carrier_duration c \<Longrightarrow>
        time_counter s = of_nat (n s) * carrier_duration c + tri_time_counter s \<Longrightarrow>
        capture_q4 (note_crossing 4 s) = Inr s1 \<Longrightarrow> sound c (2 * n s + 2) (2 * n s + 2) s1 \<Longrightarrow>
        E (2 * n s + 2) (2 * n s + 2) s1"
    and start: "sound c (2 * n s) (2 * n s) s" "E (2 * n s) (2 * n s) s"
      "n s \<le> max_cycle_counts c"
  shows "\<exists>s'. cycles c s = Inr s'
           \<and> sound c (2 * max_cycle_counts c) (2 * max_cycle_counts c) s'
           \<and> E (2 * max_cycle_counts c) (2 * max_cycle_counts c) s'
           \<and> n s' = max_cycle_counts c"
proof -
  let ?I = "\<lambda>u1 u2 s. sound c u1 u2 s \<and> E u1 u2 s"
  have "\<exists>s'. cycles c s = Inr s'
           \<and> ?I (2 * max_cycle_counts c) (2 * max_cycle_counts c) s'
           \<and> n s' = max_cycle_counts c"
  proof (rule cycles_rule [where I = ?I])
    fix s t0
    assume a: "n s < max_cycle_counts c" "?I (2 * n s) (2 * n s) s" "estimate_q1 c s = Inr t0"
      "t0 \<le> tri_time_counter s" "tri_time_counter s < carrier_duration_quarter c"
      "time_counter s = of_nat (n s) * carrier_duration c + tri_time_counter s"
    from a(1,2) have "\<exists>s1. capture_q1 (note_crossing 1 s) = Inr s1 \<and> sound c (2 * n s + 1) (2 * n s) s1"
      by (intro sound_cap1) (simp_all add: max_cycle_counts_def)
    then obtain s1 where c: "capture_q1 (note_crossing 1 s) = Inr s1"
      and so: "sound c (2 * n s + 1) (2 * n s) s1" by blast
    from cap1 [OF a(1) _ _ a(3-6) c so] a(2) have "E (2 * n s + 1) (2 * n s) s1" by simp
    with c so show "\<exists>s1. capture_q1 (note_crossing 1 s) = Inr s1 \<and> ?I (2 * n s + 1) (2 * n s) s1"
      by simp
  next
    fix s t0
    assume a: "n s < max_cycle_counts c" "?I (2 * n s + 1) (2 * n s) s" "estimate_q2 c s = Inr t0"
      "t0 \<le> tri_time_counter s" "tri_time_counter s < carrier_duration_half c"
      "time_counter s = of_nat (n s) * carrier_duration c + tri_time_counter s"
    from a(1,2) have "\<exists>s1. capture_q2 c (note_crossing 2 s) = Inr s1 \<and> sound c (2 * n s + 1) (2 * n s + 1) s1"
      by (intro sound_cap2) (simp_all add: max_cycle_counts_def)
    then obtain s1 where c: "capture_q2 c (note_crossing 2 s) = Inr s1"
      and so: "sound c (2 * n s + 1) (2 * n s + 1) s1" by blast
    from cap2 [OF a(1) _ _ a(3-6) c so] a(2) have "E (2 * n s + 1) (2 * n s + 1) s1" by simp
    with c so show "\<exists>s1. capture_q2 c (note_crossing 2 s) = Inr s1 \<and> ?I (2 * n s + 1) (2 * n s + 1) s1"
      by simp
  next
    fix s t0
    assume a: "n s < max_cycle_counts c" "?I (2 * n s + 1) (2 * n s + 1) s" "estimate_q3 c s = Inr t0"
      "t0 \<le> tri_time_counter s" "tri_time_counter s < carrier_duration_3_quarter c"
      "time_counter s = of_nat (n s) * carrier_duration c + tri_time_counter s"
    from a(1,2) have "\<exists>s1. capture_q3 (note_crossing 3 s) = Inr s1 \<and> sound c (2 * n s + 1) (2 * n s + 1 + 1) s1"
      by (intro sound_cap3) (simp_all add: max_cycle_counts_def)
    then obtain s1 where c: "capture_q3 (note_crossing 3 s) = Inr s1"
      and so: "sound c (2 * n s + 1) (2 * n s + 2) s1" by auto
    from cap3 [OF a(1) _ _ a(3-6) c so] a(2) have "E (2 * n s + 1) (2 * n s + 2) s1" by simp
    with c so show "\<exists>s1. capture_q3 (note_crossing 3 s) = Inr s1 \<and> ?I (2 * n s + 1) (2 * n s + 2) s1"
      by simp
  next
    fix s t0
    assume a: "n s < max_cycle_counts c" "?I (2 * n s + 1) (2 * n s + 2) s" "estimate_q4 c s = Inr t0"
      "t0 \<le> tri_time_counter s" "tri_time_counter s < carrier_duration c"
      "time_counter s = of_nat (n s) * carrier_duration c + tri_time_counter s"
    from a(1,2) have "\<exists>s1. capture_q4 (note_crossing 4 s) = Inr s1 \<and> sound c (2 * n s + 1 + 1) (2 * n s + 2) s1"
      by (intro sound_cap4) (simp_all add: max_cycle_counts_def)
    then obtain s1 where c: "capture_q4 (note_crossing 4 s) = Inr s1"
      and so: "sound c (2 * n s + 2) (2 * n s + 2) s1" by auto
    from cap4 [OF a(1) _ _ a(3-6) c so] a(2) have "E (2 * n s + 2) (2 * n s + 2) s1" by simp
    with c so show "\<exists>s1. capture_q4 (note_crossing 4 s) = Inr s1 \<and> ?I (2 * n s + 2) (2 * n s + 2) s1"
      by simp
  qed (use slope ins insn skip1 skip2 start in \<open>auto intro: sound_mono\<close>)
  then show ?thesis by blast
qed


lemma quarter_ticks_unat:
  assumes "1 \<le> sf * m"
  shows "unat (quarter_ticks sf m) = 2 ^ 50 div (11258999 * (sf * m * 4))"
    and "unat (quarter_ticks sf m) \<le> 25000000"
proof -
  have "(11258999::nat) * 4 \<le> 11258999 * (sf * m * 4)"
    using assms by (simp add: mult.commute)
  then have "(2 ^ 50 :: nat) div (11258999 * (sf * m * 4)) \<le> 2 ^ 50 div (11258999 * 4)"
    by (intro div_le_mono2) simp_all
  then have le: "(2 ^ 50 :: nat) div (11258999 * (sf * m * 4)) \<le> 25000000"
    by simp
  then show "unat (quarter_ticks sf m) = 2 ^ 50 div (11258999 * (sf * m * 4))"
    by (simp add: quarter_ticks_def unat_of_nat)
  with le show "unat (quarter_ticks sf m) \<le> 25000000" by simp
qed

lemma quarter_ticks_pos:
  assumes "1 \<le> sf * m" "sf * m \<le> 255 * 65535"
  shows "1 \<le> unat (quarter_ticks sf m)"
proof -
  have "11258999 * (sf * m * 4) \<le> (11258999::nat) * (255 * 65535 * 4)"
    using assms(2) by (simp add: mult.commute)
  also have "\<dots> \<le> 2 ^ 50" by simp
  finally have "1 \<le> (2 ^ 50 :: nat) div (11258999 * (sf * m * 4))"
    using assms(1) by (simp add: Suc_le_eq div_greater_zero_iff)
  then show ?thesis using quarter_ticks_unat(1) [OF assms(1)] by simp
qed

lemma quarter_ticks_small:
  assumes "25 \<le> sf * m"
  shows "unat (quarter_ticks sf m) \<le> 1000000"
proof -
  have "(11258999::nat) * 100 \<le> 11258999 * (sf * m * 4)"
    using assms by (simp add: mult.commute)
  then have "(2 ^ 50 :: nat) div (11258999 * (sf * m * 4)) \<le> 2 ^ 50 div (11258999 * 100)"
    by (intro div_le_mono2) simp_all
  then have "(2 ^ 50 :: nat) div (11258999 * (sf * m * 4)) \<le> 1000000"
    by simp
  moreover have "1 \<le> sf * m" using assms by linarith
  ultimately show ?thesis using quarter_ticks_unat(1) [of sf m] by presburger
qed

lemma word_sizes:
  "unat (signal_freq :: 8 word) \<le> 255" "unat (mf_arg :: 16 word) \<le> 65535"
  using unsigned_less [of signal_freq, where ?'a = nat]
    unsigned_less [of mf_arg, where ?'a = nat] by simp_all

lemma params_of_simps [simp]:
  "mf (params_of s1 s2 signal_freq mf_arg) = unat mf_arg"
  "carrier_duration_quarter (params_of s1 s2 signal_freq mf_arg)
     = quarter_ticks (unat signal_freq) (unat mf_arg)"
  "s1_sample (params_of s1 s2 signal_freq mf_arg) = s1"
  "s2_sample (params_of s1 s2 signal_freq mf_arg) = s2"
  by (simp_all add: params_of_def)

lemma params_of_quarter:
  assumes "1 \<le> unat signal_freq * unat mf_arg"
  shows "carrier_duration_quarter (params_of s1 s2 signal_freq mf_arg) \<noteq> 0"
proof -
  have "unat signal_freq * unat mf_arg \<le> 255 * 65535"
    using word_sizes(1) [of signal_freq] word_sizes(2) [of mf_arg]
    by (intro mult_le_mono) simp_all
  from quarter_ticks_pos [OF assms this] show ?thesis
    by (auto simp: unat_gt_0 [symmetric] simp del: unat_gt_0)
qed

lemma params_of_slope:
  assumes "25 \<le> unat signal_freq * unat mf_arg"
  shows "carrier_slope (params_of s1 s2 signal_freq mf_arg) \<noteq> 0"
proof -
  let ?q = "quarter_ticks (unat signal_freq) (unat mf_arg)"
  have "unat signal_freq * unat mf_arg \<le> 255 * 65535"
    using word_sizes(1) [of signal_freq] word_sizes(2) [of mf_arg]
    by (intro mult_le_mono) simp_all
  moreover have "1 \<le> unat signal_freq * unat mf_arg" using assms by linarith
  ultimately have pos: "1 \<le> unat ?q"
    by (intro quarter_ticks_pos)
  have "unat (scaling_factor div ?q) = 1000000 div unat ?q"
    by (simp add: unat_div scaling_factor_def)
  moreover have "1 \<le> 1000000 div unat ?q"
    using pos quarter_ticks_small [OF assms] by (simp add: Suc_le_eq div_greater_zero_iff)
  ultimately have "unat (scaling_factor div ?q) \<noteq> 0" by simp
  then show ?thesis
    by (simp add: carrier_slope_def unat_eq_0)
qed


lemma last_off_total:
  assumes "coupled c s" "p_h1_ref1 s < int (mf c)" "p_h2_ref1 s < int (mf c)"
  shows "\<exists>s'. last_off_durations c s = Inr s'"
  using assms by (simp add: last_off_durations_def store_h1_def store_h2_def coupled_def)

lemma last_off_fields:
  assumes "last_off_durations c s = Inr s'"
  shows "h1_table s' = (h1_table s)
            [nat (p_h1_ref1 s) := 2 * (signal_duration_quarter c - h1_high_val_old s),
             nat (p_h1_ref3 s) := 2 * (signal_duration_quarter c - h2_high_val_old s)]"
    "h2_table s' = (h2_table s)
            [nat (p_h2_ref3 s) := 2 * (signal_duration_quarter c - h1_high_val_old s),
             nat (p_h2_ref1 s) := 2 * (signal_duration_quarter c - h2_high_val_old s)]"
    "h1_written s' = insert (nat (p_h1_ref3 s)) (insert (nat (p_h1_ref1 s)) (h1_written s))"
    "h2_written s' = insert (nat (p_h2_ref1 s)) (insert (nat (p_h2_ref3 s)) (h2_written s))"
    "p_h1_ref1 s' = p_h1_ref1 s" "p_h1_ref2 s' = p_h1_ref2 s"
    "p_h2_ref3 s' = p_h2_ref3 s" "p_h2_ref4 s' = p_h2_ref4 s"
    "p_h2_ref1 s' = p_h2_ref1 s" "p_h2_ref2 s' = p_h2_ref2 s"
    "p_h1_ref3 s' = p_h1_ref3 s" "p_h1_ref4 s' = p_h1_ref4 s"
    "h1_sync s' = h1_sync s" "h2_sync s' = h2_sync s"
    "s1_sync_captured s' = s1_sync_captured s" "s2_sync_captured s' = s2_sync_captured s"
    "h1_high_val_old s' = h1_high_val_old s" "h2_high_val_old s' = h2_high_val_old s"
    "time_counter s' = time_counter s" "tri_time_counter s' = tri_time_counter s"
    "n s' = n s" "crossing_ticks s' = crossing_ticks s"
  using assms
  by (auto simp: last_off_durations_def thn_eq_Inr store_h1_Inr store_h2_Inr)

lemma entry_sound:
  assumes "length t1 = 2 * m" "length t2 = 2 * m" "mf c = m"
  shows "sound c 0 0 (entry_state m t1 t2 y1 y2)" "n (entry_state m t1 t2 y1 y2) = 0"
  using assms by (simp_all add: sound_def coupled_def events1_def events2_def entry_state_def)

lemma sound_last_off:
  assumes "sound c (2 * (mf c div 4)) (2 * (mf c div 4)) s" "1 \<le> mf c"
  shows "\<exists>s'. last_off_durations c s = Inr s'"
proof -
  have "nat (p_h1_ref1 s) \<le> 2 * (mf c div 4)" "nat (p_h2_ref1 s) \<le> 2 * (mf c div 4)"
    using assms(1) by (simp_all add: sound_def events1_def events2_def split: if_splits)
  then have "p_h1_ref1 s < int (mf c)" "p_h2_ref1 s < int (mf c)"
    using assms(2) quarter_le [of "mf c"] by linarith+
  with assms(1) show ?thesis
    by (intro last_off_total) (simp_all add: sound_def)
qed

lemma estimable_params:
  assumes "25 \<le> unat signal_freq * unat mf_arg"
    and "amplitude_within a s1" and "amplitude_within a s2" and "a \<le> 2146483647"
  shows "estimable (params_of s1 s2 signal_freq mf_arg)"
  using params_of_slope [OF assms(1), of s1 s2] assms(2-4)
  by (intro estimable_within [where a = a]) simp_all

lemma run_split:
  assumes big: "25 \<le> unat signal_freq * unat mf_arg"
    and len: "length t1 = 2 * unat mf_arg" "length t2 = 2 * unat mf_arg"
    and est: "estimable (params_of s1 s2 signal_freq mf_arg)"
  shows "\<exists>s0 s. cycles (params_of s1 s2 signal_freq mf_arg)
                   (entry_state (unat mf_arg) t1 t2 y1 y2) = Inr s0
           \<and> sound (params_of s1 s2 signal_freq mf_arg)
                 (2 * (unat mf_arg div 4)) (2 * (unat mf_arg div 4)) s0
           \<and> n s0 = unat mf_arg div 4
           \<and> last_off_durations (params_of s1 s2 signal_freq mf_arg) s0 = Inr s
           \<and> spwm_unipolar_arrays s1 s2 signal_freq mf_arg t1 t2 y1 y2
               = Inr (signal_duration (params_of s1 s2 signal_freq mf_arg), s)"
proof -
  let ?c = "params_of s1 s2 signal_freq mf_arg"
  let ?e = "entry_state (unat mf_arg) t1 t2 y1 y2"
  have pos: "1 \<le> unat signal_freq * unat mf_arg" using big by linarith
  then have m: "1 \<le> unat mf_arg" by (cases "unat mf_arg") simp_all
  have "\<exists>s'. cycles ?c ?e = Inr s'
           \<and> sound ?c (2 * max_cycle_counts ?c) (2 * max_cycle_counts ?c) s'
           \<and> n s' = max_cycle_counts ?c"
    using entry_sound [OF len, of ?c y1 y2] est
    by (intro sound_cycles) simp_all
  then obtain s0 where c: "cycles ?c ?e = Inr s0"
    and so: "sound ?c (2 * (unat mf_arg div 4)) (2 * (unat mf_arg div 4)) s0"
    and n0: "n s0 = unat mf_arg div 4"
    by (auto simp: max_cycle_counts_def)
  from sound_last_off [of ?c s0] so m obtain s where l: "last_off_durations ?c s0 = Inr s"
    by auto
  have "spwm_unipolar_arrays s1 s2 signal_freq mf_arg t1 t2 y1 y2 = Inr (signal_duration ?c, s)"
    using pos params_of_quarter [OF pos, of s1 s2] c l
    by (simp add: spwm_unipolar_arrays_def synthesize_def)
  with c so n0 l show ?thesis by blast
qed


lemma search_exit:
  assumes "search q bound crossed capture s = Inr s'"
  shows "\<not> tri_time_counter s' < bound"
  using assms
proof (induction q bound crossed capture s rule: search.induct)
  case (1 q bound crossed capture s)
  show ?case
  proof (cases "tri_time_counter s < bound")
    case False
    with "1.prems" show ?thesis by (subst (asm) search.simps) simp
  next
    case lt: True
    show ?thesis
    proof (cases "crossed s")
      case True
      from "1.prems" lt True obtain s1 where
        c: "capture (note_crossing q s) = Inr s1"
        and r: "search q bound crossed capture (leave_quarter bound s1) = Inr s'"
        by (subst (asm) search.simps) (auto split: sum.splits)
      from "1.IH"(1) [OF lt True c r] show ?thesis .
    next
      case False
      from "1.prems" lt False have "search q bound crossed capture (advance s) = Inr s'"
        by (subst (asm) search.simps) simp
      from "1.IH"(2) [OF lt False this] show ?thesis .
    qed
  qed
qed

lemma carrier_cycle_exit:
  assumes "carrier_cycle c s = Inr s'"
  shows "\<not> tri_time_counter s' < carrier_duration c"
  using assms
  by (auto simp: carrier_cycle_def fourth_quarter_def thn_eq_Inr dest: search_exit)

lemma cycles_exit:
  assumes "cycles c s = Inr s'" "n s < max_cycle_counts c"
  shows "\<not> tri_time_counter s' < carrier_duration c"
  using assms
proof (induction c s rule: cycles.induct)
  case (1 c s)
  from "1.prems" obtain s1 where r: "carrier_cycle c s = Inr s1"
    and k: "cycles c (s1\<lparr>n := n s + 1\<rparr>) = Inr s'"
    by (subst (asm) cycles.simps) (auto split: sum.splits)
  show ?case
  proof (cases "n s + 1 < max_cycle_counts c")
    case True
    from "1.IH" [OF "1.prems"(2) r k] True show ?thesis by simp
  next
    case False
    with k have "s' = s1\<lparr>n := n s + 1\<rparr>"
      by (subst (asm) cycles.simps) simp
    with carrier_cycle_exit [OF r] show ?thesis by simp
  qed
qed

lemma run_total:
  assumes big: "25 \<le> unat signal_freq * unat mf_arg"
    and len: "length t1 = 2 * unat mf_arg" "length t2 = 2 * unat mf_arg"
    and est: "estimable (params_of s1 s2 signal_freq mf_arg)"
  shows "\<exists>s. spwm_unipolar_arrays s1 s2 signal_freq mf_arg t1 t2 y1 y2
               = Inr (signal_duration (params_of s1 s2 signal_freq mf_arg), s)
           \<and> n s = unat mf_arg div 4
           \<and> (4 \<le> unat mf_arg \<longrightarrow>
                \<not> tri_time_counter s < carrier_duration (params_of s1 s2 signal_freq mf_arg))"
proof -
  let ?c = "params_of s1 s2 signal_freq mf_arg"
  from run_split [OF big len est, of y1 y2] obtain s0 s where
    c: "cycles ?c (entry_state (unat mf_arg) t1 t2 y1 y2) = Inr s0"
    and n0: "n s0 = unat mf_arg div 4"
    and l: "last_off_durations ?c s0 = Inr s"
    and r: "spwm_unipolar_arrays s1 s2 signal_freq mf_arg t1 t2 y1 y2
               = Inr (signal_duration ?c, s)"
    by blast
  have "\<not> tri_time_counter s0 < carrier_duration ?c" if "4 \<le> unat mf_arg"
    using that by (intro cycles_exit [OF c]) (simp add: entry_state_def max_cycle_counts_def)
  with r n0 show ?thesis
    by (auto simp: last_off_fields [OF l])
qed

lemmas run_unfolds = spwm_unipolar_arrays_def synthesize_def params_of_def quarter_ticks_def
  entry_state_def carrier_cycle_def first_quarter_def second_quarter_def third_quarter_def
  fourth_quarter_def estimate_q1_def estimate_q2_def estimate_q3_def estimate_q4_def
  crossed_q1_def crossed_q2_def crossed_q3_def crossed_q4_def
  start_search_def advance_def leave_quarter_def note_crossing_def
  capture_q1_def capture_q2_def capture_q3_def capture_q4_def
  store_s1_def store_s2_def store_mid_end_def store_h1_def store_h2_def sdiv32_def
  int_sub_def int_add_def word_sle_eq signed_divide_int_def
  carrier_falling_def carrier_rising_def carrier_slope_def carrier_duration_def
  carrier_duration_half_def carrier_duration_3_quarter_def signal_duration_def
  signal_duration_quarter_def scaling_factor_def array_mid_point_def array_end_point_def
  max_cycle_counts_def last_off_durations_def cycles.simps search.simps

section \<open>Synthesis: parameter validation\<close>




section \<open>Synthesis: termination\<close>

text \<open>
  C10. As the claim states it, the function would run its \<open>mf / 4\<close> carrier cycles for
  every \<open>signal_freq > 0\<close> and every positive multiple of 4 as \<open>mf\<close>. For
  \<open>signal_freq = 1\<close> and \<open>mf = 4\<close> the quarter duration is 6250000 ticks, the slope
  \<open>1000000 / 6250000\<close> is 0, and the estimate of the first quarter divides by it.
\<close>

theorem C10_counterexample:
  "spwm_unipolar_arrays (\<lambda>t. 0) (\<lambda>t. 0) 1 4
     [0, 0, 0, 0, 0, 0, 0, 0] [0, 0, 0, 0, 0, 0, 0, 0] 0 0 = Inl DivisionByZero"
  by (simp add: run_unfolds)

text \<open>
  C10 (amended). For every \<open>signal_freq\<close> and every positive multiple of 4 as \<open>mf\<close> with
  \<open>signal_freq * mf \<ge> 25\<close> (which makes the carrier slope non-zero), tables of \<open>2 * mf\<close>
  entries and sine samples between \<open>- 1000000\<close> and \<open>1000000\<close> (the samples of every
  \<open>0 < ma < 1\<close>), the function returns: the outer loop has run exactly \<open>mf / 4\<close> times
  (\<open>n\<close> starts at 0 and ends at \<open>mf / 4\<close>), and the last search loop has left through its
  guard, with \<open>tri_time_counter\<close> at or beyond \<open>carrier_duration\<close>. Each search loop
  terminates because \<open>bound - tri_time_counter\<close> decreases with every iteration; that is
  the termination proof of \<open>search\<close>.
\<close>

theorem C10_terminates:
  assumes "0 < unat mf_arg" and "unat mf_arg mod 4 = 0"
    and "25 \<le> unat signal_freq * unat mf_arg"
    and "length t1 = 2 * unat mf_arg" and "length t2 = 2 * unat mf_arg"
    and "amplitude_within 1000000 s1" and "amplitude_within 1000000 s2"
  shows "\<exists>p s. spwm_unipolar_arrays s1 s2 signal_freq mf_arg t1 t2 sync1 sync2 = Inr (p, s)
           \<and> n s = max_cycle_counts (params_of s1 s2 signal_freq mf_arg)
           \<and> carrier_duration (params_of s1 s2 signal_freq mf_arg) \<le> tri_time_counter s"
proof -
  from assms(1,2) have "4 \<le> unat mf_arg" by presburger
  moreover have "estimable (params_of s1 s2 signal_freq mf_arg)"
    using assms(3,6,7) by (rule estimable_params) simp
  ultimately show ?thesis
    using run_total [OF assms(3-5), of s1 s2 sync1 sync2]
    by (auto simp: max_cycle_counts_def not_less)
qed

theorem C10_terminates_witness:
  "0 < unat (4 :: 16 word) \<and> unat (4 :: 16 word) mod 4 = 0
   \<and> 25 \<le> unat (50 :: 8 word) * unat (4 :: 16 word)
   \<and> length [0, 0, 0, 0, 0, 0, 0, 0 :: u32] = 2 * unat (4 :: 16 word)
   \<and> amplitude_within 1000000 (\<lambda>t. 0)
   \<and> (\<exists>p s. spwm_unipolar_arrays (\<lambda>t. 0) (\<lambda>t. 0) 50 4
              [0, 0, 0, 0, 0, 0, 0, 0] [0, 0, 0, 0, 0, 0, 0, 0] 0 0 = Inr (p, s)
          \<and> n s = 1 \<and> 500000 \<le> tri_time_counter s)"
  using C10_terminates [where signal_freq = 50 and mf_arg = 4
      and ?t1.0 = "[0, 0, 0, 0, 0, 0, 0, 0]" and ?t2.0 = "[0, 0, 0, 0, 0, 0, 0, 0]"
      and ?s1.0 = "\<lambda>t. 0" and ?s2.0 = "\<lambda>t. 0" and ?sync1.0 = 0 and ?sync2.0 = 0]
  by (simp add: max_cycle_counts_def carrier_duration_def quarter_ticks_def
      amplitude_within_def)

section \<open>Synthesis: invariants of the tables\<close>


lemma sound_ref1_bound:
  assumes "sound c u1 u2 s" "u1 < 2 * (mf c div 4)"
  shows "0 \<le> p_h1_ref1 s" "p_h1_ref1 s \<le> int (mf c) - 2" "coupled c s"
  using assms quarter_le [of "mf c"]
  by (auto simp: sound_def events1_def coupled_def split: if_splits)

lemma sound_ref2_bound:
  assumes "sound c u1 u2 s" "u2 < 2 * (mf c div 4)"
  shows "0 \<le> p_h2_ref1 s" "p_h2_ref1 s \<le> int (mf c) - 2" "coupled c s"
  using assms quarter_le [of "mf c"]
  by (auto simp: sound_def events2_def coupled_def split: if_splits)

lemma sound_half1:
  assumes "sound c u1 u2 s" "u1 < 2 * (mf c div 4)"
  shows "2 * p_h1_ref1 s + 2 \<le> int (mf c)"
  using assms quarter_le [of "mf c"]
  by (auto simp: sound_def events1_def coupled_def split: if_splits)

lemma sound_half2:
  assumes "sound c u1 u2 s" "u2 < 2 * (mf c div 4)"
  shows "2 * p_h2_ref1 s + 2 \<le> int (mf c)"
  using assms quarter_le [of "mf c"]
  by (auto simp: sound_def events2_def coupled_def split: if_splits)

lemma coupled_offsets1:
  assumes "coupled c s" "2 * p_h1_ref1 s + 2 \<le> int (mf c)"
  shows "nat (p_h1_ref2 s) = mf c - 2 - nat (p_h1_ref1 s)"
    "nat (p_h2_ref3 s) = mf c + nat (p_h1_ref1 s)"
    "nat (p_h2_ref4 s) = 2 * mf c - 2 - nat (p_h1_ref1 s)"
    "nat (p_h1_ref1 s + 1) = nat (p_h1_ref1 s) + 1"
    "2 * nat (p_h1_ref1 s) + 2 \<le> mf c"
    "length (h1_table s) = 2 * mf c" "length (h2_table s) = 2 * mf c"
  using assms unfolding coupled_def by linarith+

lemma coupled_offsets2:
  assumes "coupled c s" "2 * p_h2_ref1 s + 2 \<le> int (mf c)"
  shows "nat (p_h2_ref2 s) = mf c - 2 - nat (p_h2_ref1 s)"
    "nat (p_h1_ref3 s) = mf c + nat (p_h2_ref1 s)"
    "nat (p_h1_ref4 s) = 2 * mf c - 2 - nat (p_h2_ref1 s)"
    "nat (p_h2_ref1 s + 1) = nat (p_h2_ref1 s) + 1"
    "2 * nat (p_h2_ref1 s) + 2 \<le> mf c"
    "length (h1_table s) = 2 * mf c" "length (h2_table s) = 2 * mf c"
  using assms unfolding coupled_def by linarith+

lemma run_with:
  assumes big: "25 \<le> unat signal_freq * unat mf_arg"
    and len: "length t1 = 2 * unat mf_arg" "length t2 = 2 * unat mf_arg"
    and est: "estimable (params_of s1 s2 signal_freq mf_arg)"
    and inv: "\<exists>s'. cycles (params_of s1 s2 signal_freq mf_arg)
                   (entry_state (unat mf_arg) t1 t2 y1 y2) = Inr s' \<and> T s'"
  shows "\<exists>s0 s. sound (params_of s1 s2 signal_freq mf_arg)
                 (2 * (unat mf_arg div 4)) (2 * (unat mf_arg div 4)) s0
           \<and> T s0
           \<and> last_off_durations (params_of s1 s2 signal_freq mf_arg) s0 = Inr s
           \<and> spwm_unipolar_arrays s1 s2 signal_freq mf_arg t1 t2 y1 y2
               = Inr (signal_duration (params_of s1 s2 signal_freq mf_arg), s)"
proof -
  from run_split [OF big len est, of y1 y2] inv show ?thesis
    by (metis Inr_inject)
qed

lemma sound_final_bounds:
  assumes "sound c (2 * (mf c div 4)) (2 * (mf c div 4)) s" "1 \<le> mf c"
  shows "coupled c s" "p_h1_ref1 s < int (mf c)" "p_h2_ref1 s < int (mf c)"
    "0 \<le> p_h1_ref1 s" "0 \<le> p_h2_ref1 s"
  using assms quarter_le [of "mf c"]
  by (auto simp: sound_def events1_def events2_def coupled_def split: if_splits)

lemma tiny_run:
  "spwm_unipolar_arrays (\<lambda>t. 0) (\<lambda>t. 0) 50 4
     [0, 0, 0, 0, 0, 0, 0, 0] [0, 0, 0, 0, 0, 0, 0, 0] 0 0
     = Inr (2000000,
      \<lparr>h1_table = [375000, 250000, 375000, 125000, 750000, 0, 0, 125000],
         h2_table = [750000, 0, 0, 125000, 375000, 250000, 375000, 125000],
         h1_sync = 0, h2_sync = 125000, s1_sync_captured = False,
         s2_sync_captured = True, h1_high_val_old = 375000,
         h2_high_val_old = 125000, time_counter = 500000,
         tri_time_counter = 500000, p_h1_ref1 = 1, p_h1_ref2 = 1,
         p_h1_ref3 = 4, p_h1_ref4 = 6, p_h2_ref1 = 0, p_h2_ref2 = 2,
         p_h2_ref3 = 5, p_h2_ref4 = 5, n = 1, h1_written = {4, 1, 2, 0, 7, 3},
         h2_written = {0, 5, 6, 4, 7, 3},
         crossing_ticks = [(0, 2, 125000), (0, 4, 375000)]\<rparr>)"
  by (simp add: run_unfolds)

lemma full_run:
  "spwm_unipolar_arrays (\<lambda>t. 500000) (\<lambda>t. - 500000) 50 4
     [0, 0, 0, 0, 0, 0, 0, 0] [0, 0, 0, 0, 0, 0, 0, 0] 0 0
     = Inr (2000000,
      \<lparr>h1_table = [375000, 125000, 375000, 250000, 125000, 375000, 125000, 250000],
         h2_table = [125000, 375000, 125000, 250000, 375000, 125000, 375000, 250000],
         h1_sync = 62500, h2_sync = 187500, s1_sync_captured = True,
         s2_sync_captured = True, h1_high_val_old = 437500,
         h2_high_val_old = 312500, time_counter = 500000,
         tri_time_counter = 500000, p_h1_ref1 = 1, p_h1_ref2 = 1,
         p_h1_ref3 = 5, p_h1_ref4 = 5, p_h2_ref1 = 1, p_h2_ref2 = 1,
         p_h2_ref3 = 5, p_h2_ref4 = 5, n = 1, h1_written = {5, 1, 2, 0, 6, 4, 7, 3},
         h2_written = {1, 5, 6, 4, 2, 0, 7, 3},
         crossing_ticks = [(0, 1, 62500), (0, 2, 187500), (0, 3, 312500), (0, 4, 437500)]\<rparr>)"
  by (simp add: run_unfolds)

lemma faint_run:
  "spwm_unipolar_arrays faint_sine (\<lambda>t. - faint_sine t) 25 8
     [0, 0, 0, 0, 0, 0, 0, 0, 0, 0, 0, 0, 0, 0, 0, 0]
     [0, 0, 0, 0, 0, 0, 0, 0, 0, 0, 0, 0, 0, 0, 0, 0] 0 0
     = Inr (4000000,
      \<lparr>h1_table = [375001, 250003, 249996, 0, 0, 250003, 375001, 125001,
                    500000, 249998, 250002, 0, 0, 249998, 500000, 125001],
         h2_table = [500000, 249998, 250002, 0, 0, 249998, 500000, 125001,
                     375001, 250003, 249996, 0, 0, 250003, 375001, 125001],
         h1_sync = 624999, h2_sync = 125001, s1_sync_captured = True,
         s2_sync_captured = True, h1_high_val_old = 875002,
         h2_high_val_old = 874999, time_counter = 1000000,
         tri_time_counter = 500000, p_h1_ref1 = 2, p_h1_ref2 = 4,
         p_h1_ref3 = 10, p_h1_ref4 = 12, p_h2_ref1 = 2, p_h2_ref2 = 4,
         p_h2_ref3 = 10, p_h2_ref4 = 12, n = 2,
         h1_written = {10, 2, 5, 1, 13, 9, 14, 8, 6, 0, 15, 7},
         h2_written = {2, 10, 13, 9, 5, 1, 6, 0, 14, 8, 15, 7},
         crossing_ticks = [(0, 2, 125001), (0, 4, 375001), (1, 1, 624999),
                           (1, 2, 625001), (1, 3, 874999), (1, 4, 875002)]\<rparr>)"
  by (simp add: run_unfolds faint_sine_def)

lemma final_offsets:
  assumes "sound c (2 * (mf c div 4)) (2 * (mf c div 4)) s0" "1 \<le> mf c"
  shows "nat (p_h1_ref3 s0) = mf c + nat (p_h2_ref1 s0)"
    "nat (p_h2_ref3 s0) = mf c + nat (p_h1_ref1 s0)"
    "nat (p_h1_ref1 s0) < mf c" "nat (p_h2_ref1 s0) < mf c"
    "length (h1_table s0) = 2 * mf c" "length (h2_table s0) = 2 * mf c"
  using sound_final_bounds [OF assms] unfolding coupled_def by linarith+

section \<open>Synthesis: stores into the tables\<close>

text \<open>
  C9. The claim: for every valid \<open>(mf, ma)\<close> every store targets an index in
  \<open>[0, 2 * mf)\<close> and, after the function returns, every one of the \<open>2 * mf\<close> entries of
  each table has been written. The code, called with \<open>signal_freq = 50\<close>, \<open>mf = 4\<close>, a
  modulation index below 0.000001 (\<^verbatim>\<open>ma_scaled = 0\<close>, so both sine samples are 0 at every
  tick) and two zero-filled tables of 8 entries, returns the period 2000000 having stored
  to the indices 0, 1, 2, 3, 4 and 7 of the first table and 0, 3, 4, 5, 6 and 7 of the
  second one: the searches of the first and of the third quarter find no crossing, and the
  entries 5 and 6 of the first table and 1 and 2 of the second one are never written.
\<close>

theorem C9_unwritten_entries:
  "\<exists>s. spwm_unipolar_arrays (\<lambda>t. 0) (\<lambda>t. 0) 50 4
          [0, 0, 0, 0, 0, 0, 0, 0] [0, 0, 0, 0, 0, 0, 0, 0] 0 0 = Inr (2000000, s)
     \<and> h1_written s = {0, 1, 2, 3, 4, 7} \<and> h2_written s = {0, 3, 4, 5, 6, 7}"
  by (auto simp: tiny_run)

section \<open>Synthesis: mirror symmetry\<close>

text \<open>
  C6. The claim: for every valid configuration each table is mirror symmetric,
  \<open>table[i] = table[mf - 2 - i]\<close> and \<open>table[mf + i] = table[2 * mf - 2 - i]\<close> for every
  \<open>i < mf - 2\<close>. The code, called with \<open>signal_freq = 50\<close>, \<open>mf = 4\<close>, a modulation index
  below 0.000001 (both sine samples 0 at every tick) and two zero-filled tables of 8
  entries, returns the two tables below: in the first one \<open>table[4] = 750000\<close> and
  \<open>table[6] = 0\<close>, in the second one \<open>table[0] = 750000\<close> and \<open>table[2] = 0\<close>. The second wave
  stores no duration in the loop, so its last OFF duration 750000 is stored at the index 4
  of the first table and 0 of the second one, and the mirror entries at 6 and 2 are never
  written.
\<close>

theorem C6_mirror_broken:
  "\<exists>s. spwm_unipolar_arrays (\<lambda>t. 0) (\<lambda>t. 0) 50 4
          [0, 0, 0, 0, 0, 0, 0, 0] [0, 0, 0, 0, 0, 0, 0, 0] 0 0 = Inr (2000000, s)
     \<and> h1_table s = [375000, 250000, 375000, 125000, 750000, 0, 0, 125000]
     \<and> h2_table s = [750000, 0, 0, 125000, 375000, 250000, 375000, 125000]"
  by (simp add: tiny_run)

section \<open>Synthesis: a run with a wrapped end point\<close>

lemma end_entries_store_s1:
  assumes cp: "coupled c s" and h: "2 * p_h1_ref1 s + 2 \<le> int (mf c)"
    and st: "store_s1 r s = Inr s1"
  shows "end_entries c s1 = end_entries c s"
proof -
  note o = coupled_offsets1 [OF cp h]
  show ?thesis
    unfolding end_entries_def store_s1_fields [OF st] o(1-3)
    using o(5) by (simp add: nth_list_update)
qed

lemma end_entries_store_s2:
  assumes cp: "coupled c s" and h: "2 * p_h2_ref1 s + 2 \<le> int (mf c)"
    and st: "store_s2 r s = Inr s1"
  shows "end_entries c s1 = end_entries c s"
proof -
  note o = coupled_offsets2 [OF cp h]
  show ?thesis
    unfolding end_entries_def store_s2_fields [OF st] o(1-3)
    using o(5) by (simp add: nth_list_update)
qed

lemma end_entries_last_off:
  assumes so: "sound c (2 * (mf c div 4)) (2 * (mf c div 4)) s0" and m: "4 \<le> mf c"
    and l: "last_off_durations c s0 = Inr s"
  shows "end_entries c s = end_entries c s0"
proof -
  have m1: "1 \<le> mf c" using m by simp
  note o = final_offsets [OF so m1]
  have "2 * nat (p_h1_ref1 s0) \<le> mf c" "2 * nat (p_h2_ref1 s0) \<le> mf c"
    using so quarter_le [of "mf c"]
    by (auto simp: sound_def events1_def events2_def split: if_splits)
  then show ?thesis
    unfolding end_entries_def last_off_fields [OF l] o(1,2)
    using m by (simp add: nth_list_update)
qed

lemma end_entries_insensitive [simp]:
  "end_entries c (s\<lparr>time_counter := t, tri_time_counter := tr\<rparr>) = end_entries c s"
  "end_entries c (s\<lparr>n := k\<rparr>) = end_entries c s"
  "end_entries c (note_crossing q s) = end_entries c s"
  "end_entries c (s\<lparr>h1_high_val_old := o1\<rparr>) = end_entries c s"
  "end_entries c (s\<lparr>h2_high_val_old := o2\<rparr>) = end_entries c s"
  "end_entries c (s\<lparr>h1_sync := y1\<rparr>) = end_entries c s"
  "end_entries c (s\<lparr>h2_sync := y2\<rparr>) = end_entries c s"
  "end_entries c (s\<lparr>s1_sync_captured := f1\<rparr>) = end_entries c s"
  "end_entries c (s\<lparr>s2_sync_captured := f2\<rparr>) = end_entries c s"
  by (simp_all add: end_entries_def note_crossing_def)

lemma events_note [simp]:
  "events1 (note_crossing q s) = events1 s" "events2 (note_crossing q s) = events2 s"
  by (simp_all add: events1_def events2_def note_crossing_def)

lemma wide_params:
  "carrier_duration_quarter (params_of s1 s2 50 32772) = 15"
  "carrier_slope (params_of s1 s2 50 32772) = 66666"
  "mf (params_of s1 s2 50 32772) = 32772"
  "array_mid_point (params_of s1 s2 50 32772) = 32771"
  "array_end_point (params_of s1 s2 50 32772) = 7"
  by (simp_all add: params_of_def quarter_ticks_def carrier_slope_def
      array_mid_point_def array_end_point_def scaling_factor_def)

lemma wide_first_cycle:
  assumes "carrier_duration_quarter c = 15" "carrier_slope c = 66666" "mf c = 32772"
    "array_mid_point c = 32771" "array_end_point c = 7"
    "s1_sample c = (\<lambda>t. 0)" "s2_sample c = (\<lambda>t. 0)"
    "length t1 = 65544" "length t2 = 65544"
  shows "carrier_cycle c (entry_state 32772 t1 t2 0 0) =
     Inr \<lparr>h1_table = t1[32771 := 16, 7 := 16, 0 := 46, 32770 := 46],
          h2_table = t2[32771 := 16, 7 := 16, 32772 := 46, 65542 := 46],
          h1_sync = 0, h2_sync = 16, s1_sync_captured = False,
          s2_sync_captured = True, h1_high_val_old = 46,
          h2_high_val_old = 16, time_counter = 60,
          tri_time_counter = 60, p_h1_ref1 = 1, p_h1_ref2 = 32769,
          p_h1_ref3 = 32772, p_h1_ref4 = 65542, p_h2_ref1 = 0,
          p_h2_ref2 = 32770, p_h2_ref3 = 32773, p_h2_ref4 = 65541,
          n = 0, h1_written = {32770, 0, 7, 32771},
          h2_written = {65542, 32772, 7, 32771},
          crossing_ticks = [(0, 2, 16), (0, 4, 46)]\<rparr>"
  using assms(8,9)
  by (simp add: assms(1-7) entry_state_def carrier_cycle_def first_quarter_def
      second_quarter_def third_quarter_def fourth_quarter_def estimate_q1_def estimate_q2_def
      estimate_q3_def estimate_q4_def crossed_q1_def crossed_q2_def crossed_q3_def
      crossed_q4_def start_search_def advance_def leave_quarter_def note_crossing_def
      capture_q1_def capture_q2_def capture_q3_def capture_q4_def store_s1_def store_s2_def
      store_mid_end_def store_h1_def store_h2_def sdiv32_def int_sub_def int_add_def
      carrier_falling_def carrier_rising_def carrier_duration_def signed_divide_int_def
      word_sle_eq
      carrier_duration_half_def carrier_duration_3_quarter_def scaling_factor_def search.simps)

lemma stale_end_point_note [simp]:
  "stale_end_point c l (note_crossing q s) = stale_end_point c l s"
  unfolding stale_end_point_def end_entries_insensitive
  by (simp add: note_crossing_def)

lemma stale_end_point_cycles:
  assumes par: "carrier_duration_quarter c = 15" "carrier_slope c = 66666"
    "s1_sample c = (\<lambda>t. 0)"
    and est: "estimable c"
    and start: "sound c (2 * n s) (2 * n s) s" "stale_end_point c l s"
      "n s \<le> max_cycle_counts c"
  shows "\<exists>s'. cycles c s = Inr s'
           \<and> sound c (2 * max_cycle_counts c) (2 * max_cycle_counts c) s'
           \<and> stale_end_point c l s' \<and> n s' = max_cycle_counts c"
proof (rule cycles_rule_sound [where E = "\<lambda>u1 u2. stale_end_point c l"])
  fix s t0 s1
  assume "estimate_q1 c s = Inr t0" "t0 \<le> tri_time_counter s"
    "tri_time_counter s < carrier_duration_quarter c"
  moreover have "estimate_q1 c s = Inr 15"
    by (simp add: estimate_q1_def par sdiv32_def int_sub_def scaling_factor_def
        signed_divide_int_def)
  ultimately show "stale_end_point c l s1" by (simp add: par)
next
  fix s t0 s1
  assume a: "n s < max_cycle_counts c" "sound c (2 * n s + 1) (2 * n s) s"
    "stale_end_point c l s" "capture_q2 c (note_crossing 2 s) = Inr s1"
  let ?s = "note_crossing 2 s"
  have b: "2 * p_h2_ref1 ?s + 2 \<le> int (mf c)" "coupled c ?s"
    using sound_half2 [of c "2 * n s + 1" "2 * n s" ?s]
      sound_ref2_bound(3) [of c "2 * n s + 1" "2 * n s" ?s] a(1,2)
    by (simp_all add: max_cycle_counts_def)
  have e: "stale_end_point c l ?s" using a(3) by simp
  from a(4) show "stale_end_point c l s1"
  proof (cases rule: capture_q2_cases)
    case (sync s2)
    with e show ?thesis by (simp add: stale_end_point_def)
  next
    case (store s2)
    with e end_entries_store_s2 [OF b(2,1) store(2)] show ?thesis
      by (simp add: stale_end_point_def store_s2_fields [OF store(2)])
  qed
next
  fix s t0 s1
  assume a: "n s < max_cycle_counts c" "sound c (2 * n s + 1) (2 * n s + 1) s"
    "stale_end_point c l s" "capture_q3 (note_crossing 3 s) = Inr s1"
  let ?s = "note_crossing 3 s"
  have b: "2 * p_h2_ref1 ?s + 2 \<le> int (mf c)" "coupled c ?s"
    using sound_half2 [of c "2 * n s + 1" "2 * n s + 1" ?s]
      sound_ref2_bound(3) [of c "2 * n s + 1" "2 * n s + 1" ?s] a(1,2)
    by (simp_all add: max_cycle_counts_def)
  have e: "stale_end_point c l ?s" using a(3) by simp
  from a(4) show "stale_end_point c l s1"
  proof (cases rule: capture_q3_cases)
    case (1 s2)
    with e end_entries_store_s2 [OF b(2,1) 1(1)] show ?thesis
      by (simp add: stale_end_point_def store_s2_fields [OF 1(1)])
  qed
next
  fix s t0 s1
  assume a: "n s < max_cycle_counts c" "sound c (2 * n s + 1) (2 * n s + 2) s"
    "stale_end_point c l s" "capture_q4 (note_crossing 4 s) = Inr s1"
  let ?s = "note_crossing 4 s"
  have b: "2 * p_h1_ref1 ?s + 2 \<le> int (mf c)" "coupled c ?s"
    using sound_half1 [of c "2 * n s + 1" "2 * n s + 2" ?s]
      sound_ref1_bound(3) [of c "2 * n s + 1" "2 * n s + 2" ?s] a(1,2)
    by (simp_all add: max_cycle_counts_def)
  have e: "stale_end_point c l ?s" using a(3) by simp
  from a(4) show "stale_end_point c l s1"
  proof (cases rule: capture_q4_cases)
    case (1 s2)
    with e end_entries_store_s1 [OF b(2,1) 1(1)] show ?thesis
      by (simp add: stale_end_point_def store_s1_fields [OF 1(1)])
  qed
qed (use est par start in \<open>simp_all add: stale_end_point_def\<close>)

lemma wide_run:
  assumes len: "length t1 = 65544" "length t2 = 65544"
  shows "\<exists>p s. spwm_unipolar_arrays (\<lambda>t. 0) (\<lambda>t. 0) 50 32772 t1 t2 0 0 = Inr (p, s)
     \<and> h1_sync s = 0 \<and> h2_sync s = 16
     \<and> h1_table s ! 32771 = 16 \<and> h1_table s ! 65543 = t1 ! 65543
     \<and> h2_table s ! 32771 = 16 \<and> h2_table s ! 65543 = t2 ! 65543"
proof -
  let ?c = "params_of (\<lambda>t. 0) (\<lambda>t. 0) 50 32772"
  let ?e = "entry_state 32772 t1 t2 0 0"
  let ?s1 = "\<lparr>h1_table = t1[32771 := 16, 7 := 16, 0 := 46, 32770 := 46],
          h2_table = t2[32771 := 16, 7 := 16, 32772 := 46, 65542 := 46],
          h1_sync = 0, h2_sync = 16, s1_sync_captured = False,
          s2_sync_captured = True, h1_high_val_old = 46,
          h2_high_val_old = 16, time_counter = 60,
          tri_time_counter = 60, p_h1_ref1 = 1, p_h1_ref2 = 32769,
          p_h1_ref3 = 32772, p_h1_ref4 = 65542, p_h2_ref1 = 0,
          p_h2_ref2 = 32770, p_h2_ref3 = 32773, p_h2_ref4 = 65541,
          n = 1, h1_written = {32770, 0, 7, 32771},
          h2_written = {65542, 32772, 7, 32771},
          crossing_ticks = [(0, 2, 16), (0, 4, 46)]\<rparr>"
  have sm: "s1_sample ?c = (\<lambda>t. 0)" "s2_sample ?c = (\<lambda>t. 0)" by simp_all
  have mx: "max_cycle_counts ?c = 8193" "mf ?c = 32772"
    by (simp_all add: max_cycle_counts_def)
  have u: "unat (50 :: 8 word) = 50" "unat (32772 :: 16 word) = 32772" by simp_all
  have n0: "n ?e = 0" by (simp add: entry_state_def)
  have est: "estimable ?c"
    by (rule estimable_params [where a = 0]) (simp_all add: amplitude_within_def)
  have first: "cycles ?c ?e = cycles ?c ?s1"
    by (subst cycles.simps)
      (simp add: mx(1) n0 wide_first_cycle [OF wide_params sm len])
  have so1: "sound ?c (2 * n ?s1) (2 * n ?s1) ?s1"
    using len by (simp add: sound_def coupled_def events1_def events2_def)
  have st1: "stale_end_point ?c (end_entries ?c ?s1) ?s1"
    by (simp add: stale_end_point_def)
  have "\<exists>s'. cycles ?c ?s1 = Inr s'
           \<and> sound ?c (2 * max_cycle_counts ?c) (2 * max_cycle_counts ?c) s'
           \<and> stale_end_point ?c (end_entries ?c ?s1) s' \<and> n s' = max_cycle_counts ?c"
    by (rule stale_end_point_cycles [OF wide_params(1,2) sm(1) est so1 st1])
      (simp add: mx(1))
  then obtain s0 where c: "cycles ?c ?e = Inr s0"
    and so: "sound ?c (2 * (mf ?c div 4)) (2 * (mf ?c div 4)) s0"
    and st: "stale_end_point ?c (end_entries ?c ?s1) s0"
    unfolding first by (auto simp: max_cycle_counts_def)
  have big: "25 \<le> unat (50 :: 8 word) * unat (32772 :: 16 word)" by simp
  have len': "length t1 = 2 * unat (32772 :: 16 word)" "length t2 = 2 * unat (32772 :: 16 word)"
    using len by simp_all
  from run_split [OF big len' est, of 0 0] c obtain s where
    l: "last_off_durations ?c s0 = Inr s"
    and r: "spwm_unipolar_arrays (\<lambda>t. 0) (\<lambda>t. 0) 50 32772 t1 t2 0 0
        = Inr (signal_duration ?c, s)"
    by (auto simp: u)
  have m4: "4 \<le> mf ?c" by simp
  have "end_entries ?c s = end_entries ?c ?s1"
    using end_entries_last_off [OF so m4 l] st by (simp add: stale_end_point_def)
  then have "h1_table s ! 32771 = 16" "h1_table s ! 65543 = t1 ! 65543"
    "h2_table s ! 32771 = 16" "h2_table s ! 65543 = t2 ! 65543"
    using len by (simp_all add: end_entries_def)
  moreover have "h1_sync s = 0" "h2_sync s = 16"
    using st by (simp_all add: stale_end_point_def last_off_fields [OF l])
  ultimately show ?thesis using r by simp
qed

section \<open>Synthesis: relation between the two tables\<close>

text \<open>
  C5. The claim: for every valid configuration \<open>h2_table[i + mf] = h1_table[i]\<close> and
  \<open>h1_table[i + mf] = h2_table[i]\<close> for every \<open>i < mf\<close>. The code, called with
  \<open>signal_freq = 50\<close>, \<open>mf = 32772\<close>, a modulation index below 0.000001 (both sine samples
  0 at every tick) and two zero-filled tables of \<open>2 * mf = 65544\<close> entries, returns with
  \<open>h1_table[32771] = 16\<close> and \<open>h2_table[32771 + 32772] = 0\<close>, and with
  \<open>h2_table[32771] = 16\<close> and \<open>h1_table[32771 + 32772] = 0\<close>: the end point \<open>2 * mf - 1\<close> is
  kept in a \<^verbatim>\<open>uint16_t\<close>, \<open>65543\<close> wraps to \<open>7\<close>, and the value stored at the mid point
  \<open>mf - 1\<close> of each table was stored at the index 7 instead of the end point.
\<close>

theorem C5_end_point_unrelated:
  "\<exists>p s. spwm_unipolar_arrays (\<lambda>t. 0) (\<lambda>t. 0) 50 32772
          (replicate 65544 0) (replicate 65544 0) 0 0 = Inr (p, s)
     \<and> h1_table s ! 32771 = 16 \<and> h2_table s ! (32771 + 32772) = 0
     \<and> h2_table s ! 32771 = 16 \<and> h1_table s ! (32771 + 32772) = 0"
  using wide_run [of "replicate 65544 0" "replicate 65544 0"]
  by auto

section \<open>Synthesis: the entries at the mid point and at the end point\<close>

text \<open>
  C7. The claim: for every valid configuration the entries at the indices \<open>mf - 1\<close> and
  \<open>2 * mf - 1\<close> of both tables are \<open>h1_sync + h2_sync\<close>. The code misses that in two ways.
  Called with \<open>signal_freq = 50\<close>, \<open>mf = 32772\<close>, a modulation index below 0.000001 and
  zero-filled tables of 65544 entries, it returns with \<open>h1_sync + h2_sync = 16\<close> and the
  entries at \<open>2 * mf - 1 = 65543\<close> still 0: the end point is kept in a \<^verbatim>\<open>uint16_t\<close> and
  wraps to 7. Called with \<open>signal_freq = 25\<close>, \<open>mf = 8\<close>, the modulation index 0.0000105
  and zero-filled tables of 16 entries, it returns with \<open>h1_sync = 624999\<close> and
  \<open>h2_sync = 125001\<close>, and the entries at 7 and 15 of both tables are 125001: the sum is
  formed when the second sync count is captured, in the first carrier cycle, and the
  first sync count, captured in the second carrier cycle, is read before it is written.
\<close>

theorem C7_sync_sum_missed:
  "(\<exists>p s. spwm_unipolar_arrays (\<lambda>t. 0) (\<lambda>t. 0) 50 32772
           (replicate 65544 0) (replicate 65544 0) 0 0 = Inr (p, s)
      \<and> h1_sync s + h2_sync s = 16
      \<and> h1_table s ! (2 * 32772 - 1) = 0 \<and> h2_table s ! (2 * 32772 - 1) = 0)
   \<and> (\<exists>s. spwm_unipolar_arrays faint_sine (\<lambda>t. - faint_sine t) 25 8
           [0, 0, 0, 0, 0, 0, 0, 0, 0, 0, 0, 0, 0, 0, 0, 0]
           [0, 0, 0, 0, 0, 0, 0, 0, 0, 0, 0, 0, 0, 0, 0, 0] 0 0 = Inr (4000000, s)
      \<and> h1_sync s + h2_sync s = 750000
      \<and> h1_table s ! (8 - 1) = 125001 \<and> h1_table s ! (2 * 8 - 1) = 125001
      \<and> h2_table s ! (8 - 1) = 125001 \<and> h2_table s ! (2 * 8 - 1) = 125001)"
proof -
  have "\<exists>p s. spwm_unipolar_arrays (\<lambda>t. 0) (\<lambda>t. 0) 50 32772
           (replicate 65544 0) (replicate 65544 0) 0 0 = Inr (p, s)
      \<and> h1_sync s + h2_sync s = 16
      \<and> h1_table s ! (2 * 32772 - 1) = 0 \<and> h2_table s ! (2 * 32772 - 1) = 0"
    using wide_run [of "replicate 65544 0" "replicate 65544 0"] by auto
  then show ?thesis by (simp add: faint_run)
qed

section \<open>Synthesis: the crossing ticks\<close>

lemma sint_of_nat_small:
  assumes "k < 2147483648"
  shows "sint (of_nat k :: u32) = int k"
proof -
  have "sint (word_of_int (int k) :: u32) = signed_take_bit (LENGTH(32) - 1) (int k)"
    by (rule sint_sbintrunc')
  also have "\<dots> = int k"
    by (rule signed_take_bit_int_eq_self) (use assms in simp_all)
  finally show ?thesis by simp
qed

lemma sint_small:
  assumes "unat (x :: u32) < 2 ^ 31"
  shows "sint x = int (unat x)"
proof -
  have "unat x < 2147483648" using assms by simp
  from sint_of_nat_small [OF this] show ?thesis by simp
qed

lemma sdiv_nonneg:
  assumes "0 \<le> (a :: int)" "0 < b"
  shows "a sdiv b = a div b"
  using assms by (simp add: signed_divide_int_def sgn_if)

lemma sint_scaled:
  assumes "- 1000000 \<le> sint (x :: u32)" "sint x \<le> 1000000"
  shows "sint (scaling_factor - x) = 1000000 - sint x"
    and "sint (scaling_factor + x) = 1000000 + sint x"
proof -
  have s: "sint scaling_factor = 1000000" by (simp add: scaling_factor_def)
  have "sint (scaling_factor - x) = signed_take_bit 31 (sint scaling_factor - sint x)"
    by (simp add: sint_word_ariths)
  also have "\<dots> = sint scaling_factor - sint x"
    using assms unfolding s by (intro signed_take_bit_int_eq_self) simp_all
  finally show "sint (scaling_factor - x) = 1000000 - sint x" using s by simp
  have "sint (scaling_factor + x) = signed_take_bit 31 (sint scaling_factor + sint x)"
    by (simp add: sint_word_ariths)
  also have "\<dots> = sint scaling_factor + sint x"
    using assms unfolding s by (intro signed_take_bit_int_eq_self) simp_all
  finally show "sint (scaling_factor + x) = 1000000 + sint x" using s by simp
qed

lemma sdiv32_nonneg:
  assumes y: "y \<noteq> 0" "unat y \<le> 1000000" and x: "0 \<le> sint x" "sint x \<le> 2000000"
    and d: "sdiv32 x y = Inr t"
  shows "unat t = nat (sint x) div unat y"
proof -
  have sy: "sint y = int (unat y)" using y(2) by (intro sint_small) simp
  have py: "0 < unat y" using y(1) by (simp add: unat_gt_0)
  have py': "0 < int (unat y)" using py by linarith
  have "sint x = int (nat (sint x))" using x(1) by simp
  then have "sint x div int (unat y) = int (nat (sint x) div unat y)"
    by (metis zdiv_int)
  with sdiv_nonneg [OF x(1) py'] have "sint x sdiv sint y = int (nat (sint x) div unat y)"
    unfolding sy by simp
  with d y(1) have "t = word_of_int (int (nat (sint x) div unat y))"
    by (simp add: sdiv32_def)
  then have "t = of_nat (nat (sint x) div unat y)" by simp
  moreover have "nat (sint x) div unat y \<le> nat (sint x)" by (rule div_le_dividend)
  then have "nat (sint x) div unat y < 4294967296" using x(2) by linarith
  then have "nat (sint x) div unat y < 2 ^ 32" by simp
  ultimately show ?thesis by (simp add: unat_of_nat)
qed

lemma durations_unat:
  assumes "carrier_slope c \<noteq> 0"
  shows "1 \<le> unat (carrier_duration_quarter c)"
    and "unat (carrier_duration_quarter c) \<le> 1000000"
    and "unat (carrier_duration_half c) = 2 * unat (carrier_duration_quarter c)"
    and "unat (carrier_duration_3_quarter c) = 3 * unat (carrier_duration_quarter c)"
    and "unat (carrier_duration c) = 4 * unat (carrier_duration_quarter c)"
    and "1 \<le> unat (carrier_slope c)"
    and "unat (carrier_slope c) \<le> 1000000"
    and "unat (carrier_duration_quarter c) * unat (carrier_slope c) \<le> 1000000"
proof -
  let ?q = "carrier_duration_quarter c"
  have sl: "unat (carrier_slope c) = 1000000 div unat ?q"
    by (simp add: carrier_slope_def unat_div scaling_factor_def)
  have "unat (carrier_slope c) \<noteq> 0" using assms by (simp add: unat_eq_0)
  with sl have nz: "1000000 div unat ?q \<noteq> 0" by simp
  then show q1: "1 \<le> unat ?q" by (cases "unat ?q = 0") simp_all
  from nz show q2: "unat ?q \<le> 1000000" by (simp add: div_eq_0_iff not_less)
  from nz sl show "1 \<le> unat (carrier_slope c)" by simp
  show "unat (carrier_slope c) \<le> 1000000" unfolding sl by (rule div_le_dividend)
  show "unat ?q * unat (carrier_slope c) \<le> 1000000" unfolding sl by simp
  have "unat (2 * ?q) = (2 * unat ?q) mod 2 ^ 32" "unat (3 * ?q) = (3 * unat ?q) mod 2 ^ 32"
    "unat (4 * ?q) = (4 * unat ?q) mod 2 ^ 32"
    by (simp_all add: unat_word_ariths)
  moreover have "2 * unat ?q < 4294967296" "3 * unat ?q < 4294967296" "4 * unat ?q < 4294967296"
    using q2 by linarith+
  ultimately show "unat (carrier_duration_half c) = 2 * unat ?q"
    "unat (carrier_duration_3_quarter c) = 3 * unat ?q"
    "unat (carrier_duration c) = 4 * unat ?q"
    by (simp_all add: carrier_duration_half_def carrier_duration_3_quarter_def
        carrier_duration_def)
qed

lemma tick_unat:
  assumes "k * (4 * unat (carrier_duration_quarter c)) + unat tr < 4294967296"
  shows "unat (of_nat k * carrier_duration c + tr)
      = k * (4 * unat (carrier_duration_quarter c)) + unat tr"
proof -
  have "of_nat k * carrier_duration c + tr
      = (of_nat (k * (4 * unat (carrier_duration_quarter c)) + unat tr) :: u32)"
    by (simp add: carrier_duration_def)
  moreover have "k * (4 * unat (carrier_duration_quarter c)) + unat tr < 2 ^ LENGTH(32)"
    using assms by simp
  ultimately show ?thesis by (simp only: unat_of_nat mod_less)
qed

lemma estimate_lower:
  assumes slope: "carrier_slope c \<noteq> 0"
    and x: "1000000 \<le> sint x" "sint x \<le> 2000000"
    and d: "sdiv32 x (carrier_slope c) = Inr t"
  shows "unat (carrier_duration_quarter c) \<le> unat t" "unat t \<le> 2000000"
proof -
  note u = durations_unat [OF slope]
  have x0: "0 \<le> sint x" using x(1) by linarith
  have t: "unat t = nat (sint x) div unat (carrier_slope c)"
    by (rule sdiv32_nonneg [OF slope u(7) x0 x(2) d])
  have "unat (carrier_duration_quarter c) \<le> 1000000 div unat (carrier_slope c)"
    using u(6,8) by (simp add: less_eq_div_iff_mult_less_eq)
  also have "\<dots> \<le> nat (sint x) div unat (carrier_slope c)"
    using x(1) by (intro div_le_mono) linarith
  finally show "unat (carrier_duration_quarter c) \<le> unat t" unfolding t .
  have "nat (sint x) div unat (carrier_slope c) \<le> nat (sint x)" by (rule div_le_dividend)
  then show "unat t \<le> 2000000" unfolding t using x(2) by linarith
qed

lemma estimate_q2_lower:
  assumes slope: "carrier_slope c \<noteq> 0"
    and s: "- 1000000 \<le> sint (s2_sample c (of_nat (n s) * carrier_duration c
                + carrier_duration_quarter c))"
      "sint (s2_sample c (of_nat (n s) * carrier_duration c + carrier_duration_quarter c)) \<le> 0"
    and e: "estimate_q2 c s = Inr t0"
  shows "unat (carrier_duration_quarter c) \<le> unat t0"
proof -
  let ?S = "s2_sample c (of_nat (n s) * carrier_duration c + carrier_duration_quarter c)"
  have "sint ?S \<le> 1000000" using s(2) by linarith
  from sint_scaled(1) [OF s(1) this] s
  have "1000000 \<le> sint (scaling_factor - ?S)" "sint (scaling_factor - ?S) \<le> 2000000"
    by linarith+
  moreover have "int_sub scaling_factor ?S = Inr (scaling_factor - ?S)"
    using s(1) by (intro int_sub_Inr) linarith
  ultimately show ?thesis
    using estimate_lower(1) [OF slope, of "scaling_factor - ?S" t0] e
    by (simp add: estimate_q2_def)
qed

lemma estimate_q3_lower:
  assumes slope: "carrier_slope c \<noteq> 0"
    and s: "- 1000000 \<le> sint (s2_sample c (of_nat (n s) * carrier_duration c
                + carrier_duration_3_quarter c))"
      "sint (s2_sample c (of_nat (n s) * carrier_duration c + carrier_duration_3_quarter c))
         \<le> 1000000"
    and e: "estimate_q3 c s = Inr t0"
  shows "unat (carrier_duration_half c) \<le> unat t0"
proof -
  let ?S = "s2_sample c (of_nat (n s) * carrier_duration c + carrier_duration_3_quarter c)"
  note u = durations_unat [OF slope]
  have i: "int_add scaling_factor ?S = Inr (scaling_factor + ?S)"
    using s(2) by (intro int_add_Inr) linarith
  from e obtain x where d: "sdiv32 (scaling_factor + ?S) (carrier_slope c) = Inr x"
    and t0: "t0 = x + carrier_duration_half c"
    by (auto simp: estimate_q3_def i thn_eq_Inr)
  from sint_scaled(2) [OF s] s
  have r: "0 \<le> sint (scaling_factor + ?S)" "sint (scaling_factor + ?S) \<le> 2000000"
    by linarith+
  have "unat x = nat (sint (scaling_factor + ?S)) div unat (carrier_slope c)"
    by (rule sdiv32_nonneg [OF slope u(7) r d])
  moreover have "nat (sint (scaling_factor + ?S)) div unat (carrier_slope c)
      \<le> nat (sint (scaling_factor + ?S))" by (rule div_le_dividend)
  ultimately have "unat x \<le> 2000000" using r(2) by linarith
  then have "unat x + unat (carrier_duration_half c) < 4294967296"
    using u(2,3) by linarith
  then have "unat (x + carrier_duration_half c) = unat x + unat (carrier_duration_half c)"
    by (simp add: unat_word_ariths)
  then show ?thesis unfolding t0 by linarith
qed

lemma estimate_q4_lower:
  assumes slope: "carrier_slope c \<noteq> 0"
    and s: "0 \<le> sint (s1_sample c (of_nat (n s) * carrier_duration c
                + carrier_duration_3_quarter c))"
      "sint (s1_sample c (of_nat (n s) * carrier_duration c + carrier_duration_3_quarter c))
         \<le> 1000000"
    and e: "estimate_q4 c s = Inr t0"
  shows "unat (carrier_duration_3_quarter c) \<le> unat t0"
proof -
  let ?S = "s1_sample c (of_nat (n s) * carrier_duration c + carrier_duration_3_quarter c)"
  note u = durations_unat [OF slope]
  have i: "int_add scaling_factor ?S = Inr (scaling_factor + ?S)"
    using s(2) by (intro int_add_Inr) linarith
  from e obtain x where d: "sdiv32 (scaling_factor + ?S) (carrier_slope c) = Inr x"
    and t0: "t0 = x + carrier_duration_half c"
    by (auto simp: estimate_q4_def i thn_eq_Inr)
  have "- 1000000 \<le> sint ?S" using s(1) by linarith
  from sint_scaled(2) [OF this s(2)] s
  have r: "1000000 \<le> sint (scaling_factor + ?S)" "sint (scaling_factor + ?S) \<le> 2000000"
    by linarith+
  note x = estimate_lower [OF slope r d]
  have "unat x + unat (carrier_duration_half c) < 4294967296"
    using x(2) u(2,3) by linarith
  then have "unat (x + carrier_duration_half c) = unat x + unat (carrier_duration_half c)"
    by (simp add: unat_word_ariths)
  then show ?thesis unfolding t0 using x(1) u(3,4) by linarith
qed

lemma capture_log:
  "capture_q1 s = Inr s' \<Longrightarrow> crossing_ticks s' = crossing_ticks s"
  "capture_q2 c s = Inr s' \<Longrightarrow> crossing_ticks s' = crossing_ticks s"
  "capture_q3 s = Inr s' \<Longrightarrow> crossing_ticks s' = crossing_ticks s"
  "capture_q4 s = Inr s' \<Longrightarrow> crossing_ticks s' = crossing_ticks s"
  by (auto elim!: capture_q1_cases capture_q2_cases capture_q3_cases capture_q4_cases
      simp: store_s1_fields store_s2_fields store_mid_end_fields)

lemma windows_insensitive [simp]:
  "windows c k (s\<lparr>time_counter := t, tri_time_counter := tr\<rparr>) = windows c k s"
  "windows c k (s\<lparr>n := j\<rparr>) = windows c k s"
  by (simp_all add: windows_def)

lemma windows_mono:
  assumes "windows c k s" "k \<le> k'"
  shows "windows c k' s"
proof -
  have "k * unat (carrier_duration_quarter c) \<le> k' * unat (carrier_duration_quarter c)"
    using assms(2) by (rule mult_le_mono1)
  with assms(1) show ?thesis
    unfolding windows_def by (meson less_le_trans)
qed

lemma windows_capture:
  assumes w: "windows c k s" and log: "crossing_ticks s1 = crossing_ticks s @ [(j, q, t)]"
    and lo: "k * unat (carrier_duration_quarter c) \<le> unat t"
    and hi: "unat t < (k + 1) * unat (carrier_duration_quarter c)"
    and iw: "in_window c (j, q, t)"
  shows "windows c (k + 1) s1"
proof -
  have old: "in_window c e" "tick e < k * unat (carrier_duration_quarter c)"
    if "e \<in> set (crossing_ticks s)" for e
    using w that by (simp_all add: windows_def)
  have "tick e < (k + 1) * unat (carrier_duration_quarter c)"
    if "e \<in> set (crossing_ticks s)" for e
    using old(2) [OF that] by simp
  moreover have "tick e < tick (j, q, t)" if "e \<in> set (crossing_ticks s)" for e
    using old(2) [OF that] lo by (simp add: tick_def)
  moreover have "sorted_wrt (<) (map tick (crossing_ticks s))"
    using w by (simp add: windows_def)
  moreover have "tick (j, q, t) < (k + 1) * unat (carrier_duration_quarter c)"
    using hi by (simp add: tick_def)
  ultimately show ?thesis
    unfolding windows_def log using old(1) iw
    by (auto simp: sorted_wrt_append)
qed

lemma cycle_room:
  assumes nw: "mf c * unat (carrier_duration_quarter c) < 4294967296"
    and n: "k < max_cycle_counts c"
  shows "k * (4 * unat (carrier_duration_quarter c)) + 4 * unat (carrier_duration_quarter c)
      \<le> mf c * unat (carrier_duration_quarter c)"
proof -
  have "4 * (k + 1) \<le> mf c" using n quarter_le [of "mf c"] by (simp add: max_cycle_counts_def)
  then have "4 * (k + 1) * unat (carrier_duration_quarter c)
      \<le> mf c * unat (carrier_duration_quarter c)" by (rule mult_le_mono1)
  then show ?thesis by (simp add: algebra_simps)
qed

lemma quarter_bounds:
  assumes slope: "carrier_slope c \<noteq> 0" and q: "1 \<le> q" "q \<le> 4"
  shows "unat (quarter_start c q) = (q - 1) * unat (carrier_duration_quarter c)"
    and "unat (quarter_end c q) = q * unat (carrier_duration_quarter c)"
proof -
  note u = durations_unat [OF slope]
  from q consider "q = 1" | "q = 2" | "q = 3" | "q = 4" by linarith
  then show "unat (quarter_start c q) = (q - 1) * unat (carrier_duration_quarter c)"
    by cases (simp_all add: quarter_start_def u)
  from q consider "q = 1" | "q = 2" | "q = 3" | "q = 4" by linarith
  then show "unat (quarter_end c q) = q * unat (carrier_duration_quarter c)"
    by cases (simp_all add: quarter_end_def u)
qed

lemma quarter_capture:
  assumes slope: "carrier_slope c \<noteq> 0"
    and nw: "mf c * unat (carrier_duration_quarter c) < 4294967296"
    and n: "n s < max_cycle_counts c"
    and q: "1 \<le> q" "q \<le> 4"
    and w: "windows c (4 * n s + (q - 1)) s"
    and lo: "unat (quarter_start c q) \<le> unat (tri_time_counter s)"
    and hi: "tri_time_counter s < quarter_end c q"
    and tm: "time_counter s = of_nat (n s) * carrier_duration c + tri_time_counter s"
    and log: "crossing_ticks s1 = crossing_ticks (note_crossing q s)"
  shows "windows c (4 * n s + q) s1"
proof -
  define U where "U = unat (carrier_duration_quarter c)"
  define B where "B = n s * U"
  note u = durations_unat [OF slope, folded U_def]
  note b = quarter_bounds [OF slope q, folded U_def]
  have room: "4 * B + 4 * U \<le> mf c * U"
    using cycle_room [OF nw n] by (simp add: U_def B_def algebra_simps)
  have qU: "q * U \<le> 4 * U" using q(2) by simp
  have hi': "unat (tri_time_counter s) < q * U"
    using hi by (simp add: word_less_nat_alt b)
  have lo': "(q - 1) * U \<le> unat (tri_time_counter s)" using lo by (simp add: b)
  have m: "mf c * U < 4294967296" using nw by (simp add: U_def)
  have e: "n s * (4 * U) = 4 * B" by (simp add: B_def)
  have "4 * B + unat (tri_time_counter s) < 4294967296"
    using room hi' qU m by linarith
  then have "n s * (4 * U) + unat (tri_time_counter s) < 4294967296"
    unfolding e .
  from tick_unat [OF this [unfolded U_def]]
  have t: "unat (time_counter s) = 4 * B + unat (tri_time_counter s)"
    unfolding tm e [symmetric] U_def .
  have k: "(4 * n s + (q - 1)) * U = 4 * B + (q - 1) * U"
    "(4 * n s + (q - 1) + 1) * U = 4 * B + q * U"
    using q(1) by (simp_all add: B_def algebra_simps)
  have cd: "n s * unat (carrier_duration c) = 4 * B"
    by (simp add: u B_def)
  have "windows c (4 * n s + (q - 1) + 1) s1"
  proof (rule windows_capture [OF w])
    show "crossing_ticks s1 = crossing_ticks s @ [(n s, q, time_counter s)]"
      by (simp add: log note_crossing_def)
    show "(4 * n s + (q - 1)) * unat (carrier_duration_quarter c) \<le> unat (time_counter s)"
      unfolding U_def [symmetric] k t using lo' by simp
    show "unat (time_counter s) < (4 * n s + (q - 1) + 1) * unat (carrier_duration_quarter c)"
      unfolding U_def [symmetric] k t using hi' by simp
    show "in_window c (n s, q, time_counter s)"
      unfolding in_window_def prod.case cd b t using q lo' hi' by simp
  qed
  then show ?thesis using q(1) by simp
qed

lemma sample_signs:
  assumes slope: "carrier_slope c \<noteq> 0"
    and nw: "mf c * unat (carrier_duration_quarter c) < 4294967296"
    and n: "k < max_cycle_counts c"
    and sg: "sine_signs c"
    and b: "b = carrier_duration_quarter c \<or> b = carrier_duration_3_quarter c"
  shows "0 \<le> sint (s1_sample c (of_nat k * carrier_duration c + b))"
    "sint (s1_sample c (of_nat k * carrier_duration c + b)) \<le> 1000000"
    "- 1000000 \<le> sint (s2_sample c (of_nat k * carrier_duration c + b))"
    "sint (s2_sample c (of_nat k * carrier_duration c + b)) \<le> 0"
proof -
  note u = durations_unat [OF slope]
  have ub: "unat b < 4 * unat (carrier_duration_quarter c)"
    using b u(1,4) by auto
  note room = cycle_room [OF nw n]
  have "k * (4 * unat (carrier_duration_quarter c)) + unat b < 4294967296"
    using room ub nw by linarith
  from tick_unat [OF this]
  have "unat (of_nat k * carrier_duration c + b) < mf c * unat (carrier_duration_quarter c)"
    using room ub by linarith
  with sg show "0 \<le> sint (s1_sample c (of_nat k * carrier_duration c + b))"
    "sint (s1_sample c (of_nat k * carrier_duration c + b)) \<le> 1000000"
    "- 1000000 \<le> sint (s2_sample c (of_nat k * carrier_duration c + b))"
    "sint (s2_sample c (of_nat k * carrier_duration c + b)) \<le> 0"
    by (simp_all add: sine_signs_def)
qed

lemma estimable_signs:
  assumes slope: "carrier_slope c \<noteq> 0"
    and nw: "mf c * unat (carrier_duration_quarter c) < 4294967296"
    and sg: "sine_signs c"
  shows "estimable c"
proof (rule estimable_samples [OF slope])
  fix k assume n: "k < max_cycle_counts c"
  from sample_signs(1,3) [OF slope nw n sg, of "carrier_duration_quarter c"]
  show "- 2146483647 \<le> sint (s1_sample c (of_nat k * carrier_duration c
            + carrier_duration_quarter c))
        \<and> - 2146483647 \<le> sint (s2_sample c (of_nat k * carrier_duration c
            + carrier_duration_quarter c))"
    by simp
next
  fix k assume n: "k < max_cycle_counts c"
  from sample_signs(2,4) [OF slope nw n sg, of "carrier_duration_3_quarter c"]
  show "sint (s1_sample c (of_nat k * carrier_duration c + carrier_duration_3_quarter c))
          \<le> 2146483647
        \<and> sint (s2_sample c (of_nat k * carrier_duration c + carrier_duration_3_quarter c))
          \<le> 2146483647"
    by simp
qed

lemma windows_cycles:
  assumes slope: "carrier_slope c \<noteq> 0"
    and nw: "mf c * unat (carrier_duration_quarter c) < 4294967296"
    and sg: "sine_signs c"
    and start: "sound c (2 * n s) (2 * n s) s" "windows c (4 * n s) s"
      "n s \<le> max_cycle_counts c"
  shows "\<exists>s'. cycles c s = Inr s'
           \<and> sound c (2 * max_cycle_counts c) (2 * max_cycle_counts c) s'
           \<and> windows c (4 * max_cycle_counts c) s' \<and> n s' = max_cycle_counts c"
proof -
  have "\<exists>s'. cycles c s = Inr s'
           \<and> sound c (2 * max_cycle_counts c) (2 * max_cycle_counts c) s'
           \<and> windows c (2 * max_cycle_counts c + 2 * max_cycle_counts c) s'
           \<and> n s' = max_cycle_counts c"
  proof (rule cycles_rule_sound [where E = "\<lambda>u1 u2. windows c (u1 + u2)"])
    show "estimable c" by (rule estimable_signs [OF slope nw sg])
  next
    fix s t0 s1
    assume a: "n s < max_cycle_counts c" "windows c (2 * n s + 2 * n s) s"
      "tri_time_counter s < carrier_duration_quarter c"
      "time_counter s = of_nat (n s) * carrier_duration c + tri_time_counter s"
      "capture_q1 (note_crossing 1 s) = Inr s1"
    have w: "windows c (4 * n s + (1 - 1)) s" using a(2) by (rule windows_mono) simp
    have "windows c (4 * n s + 1) s1"
      by (rule quarter_capture [OF slope nw a(1) _ _ w _ _ a(4) capture_log(1) [OF a(5)]])
        (use a(3) in \<open>simp_all add: quarter_start_def quarter_end_def\<close>)
    then show "windows c (2 * n s + 1 + 2 * n s) s1" by (rule windows_mono) simp
  next
    fix s t0 s1
    assume a: "n s < max_cycle_counts c" "windows c (2 * n s + 1 + 2 * n s) s"
      "estimate_q2 c s = Inr t0" "t0 \<le> tri_time_counter s"
      "tri_time_counter s < carrier_duration_half c"
      "time_counter s = of_nat (n s) * carrier_duration c + tri_time_counter s"
      "capture_q2 c (note_crossing 2 s) = Inr s1"
    note sg' = sample_signs [OF slope nw a(1) sg, of "carrier_duration_quarter c"]
    have lo: "unat (carrier_duration_quarter c) \<le> unat (tri_time_counter s)"
      using estimate_q2_lower [OF slope sg'(3,4) a(3)] a(4)
      by (simp add: word_le_nat_alt)
    have w: "windows c (4 * n s + (2 - 1)) s" using a(2) by (rule windows_mono) simp
    have "windows c (4 * n s + 2) s1"
      by (rule quarter_capture [OF slope nw a(1) _ _ w _ _ a(6) capture_log(2) [OF a(7)]])
        (use a(5) lo in \<open>simp_all add: quarter_start_def quarter_end_def\<close>)
    then show "windows c (2 * n s + 1 + (2 * n s + 1)) s1" by (rule windows_mono) simp
  next
    fix s t0 s1
    assume a: "n s < max_cycle_counts c" "windows c (2 * n s + 1 + (2 * n s + 1)) s"
      "estimate_q3 c s = Inr t0" "t0 \<le> tri_time_counter s"
      "tri_time_counter s < carrier_duration_3_quarter c"
      "time_counter s = of_nat (n s) * carrier_duration c + tri_time_counter s"
      "capture_q3 (note_crossing 3 s) = Inr s1"
    note sg' = sample_signs [OF slope nw a(1) sg, of "carrier_duration_3_quarter c"]
    have "sint (s2_sample c (of_nat (n s) * carrier_duration c + carrier_duration_3_quarter c))
        \<le> 1000000" using sg'(4) by simp
    from estimate_q3_lower [OF slope sg'(3) this a(3)] a(4)
    have lo: "unat (carrier_duration_half c) \<le> unat (tri_time_counter s)"
      by (simp add: word_le_nat_alt)
    have w: "windows c (4 * n s + (3 - 1)) s" using a(2) by (rule windows_mono) simp
    have "windows c (4 * n s + 3) s1"
      by (rule quarter_capture [OF slope nw a(1) _ _ w _ _ a(6) capture_log(3) [OF a(7)]])
        (use a(5) lo in \<open>simp_all add: quarter_start_def quarter_end_def\<close>)
    then show "windows c (2 * n s + 1 + (2 * n s + 2)) s1" by (rule windows_mono) simp
  next
    fix s t0 s1
    assume a: "n s < max_cycle_counts c" "windows c (2 * n s + 1 + (2 * n s + 2)) s"
      "estimate_q4 c s = Inr t0" "t0 \<le> tri_time_counter s"
      "tri_time_counter s < carrier_duration c"
      "time_counter s = of_nat (n s) * carrier_duration c + tri_time_counter s"
      "capture_q4 (note_crossing 4 s) = Inr s1"
    note sg' = sample_signs [OF slope nw a(1) sg, of "carrier_duration_3_quarter c"]
    from estimate_q4_lower [OF slope sg'(1,2) a(3)] a(4)
    have lo: "unat (carrier_duration_3_quarter c) \<le> unat (tri_time_counter s)"
      by (simp add: word_le_nat_alt)
    have w: "windows c (4 * n s + (4 - 1)) s" using a(2) by (rule windows_mono) simp
    have "windows c (4 * n s + 4) s1"
      by (rule quarter_capture [OF slope nw a(1) _ _ w _ _ a(6) capture_log(4) [OF a(7)]])
        (use a(5) lo in \<open>simp_all add: quarter_start_def quarter_end_def\<close>)
    then show "windows c (2 * n s + 2 + (2 * n s + 2)) s1" by (rule windows_mono) simp
  next
    fix u1 u2 :: nat and s
    assume "windows c (u1 + u2) s"
    then show "windows c (u1 + 1 + u2) s" by (rule windows_mono) simp
  next
    fix u1 u2 :: nat and s
    assume "windows c (u1 + u2) s"
    then show "windows c (u1 + (u2 + 1)) s" by (rule windows_mono) simp
  next
    show "windows c (2 * n s + 2 * n s) s" using start(2) by (rule windows_mono) simp
  qed (use slope start in simp_all)
  then obtain s' where "cycles c s = Inr s'"
    "sound c (2 * max_cycle_counts c) (2 * max_cycle_counts c) s'"
    "windows c (2 * max_cycle_counts c + 2 * max_cycle_counts c) s'"
    "n s' = max_cycle_counts c" by blast
  moreover from this(3) have "windows c (4 * max_cycle_counts c) s'"
    by (rule windows_mono) simp
  ultimately show ?thesis by blast
qed

lemma params_of_room:
  assumes "1 \<le> unat signal_freq * unat mf_arg"
  shows "mf (params_of s1 s2 signal_freq mf_arg)
       * unat (carrier_duration_quarter (params_of s1 s2 signal_freq mf_arg)) < 4294967296"
proof -
  define f where "f = unat signal_freq"
  define m where "m = unat mf_arg"
  define x where "x = (2 ^ 50 :: nat) div (11258999 * (f * m * 4))"
  have fm: "1 \<le> f * m" using assms by (simp add: f_def m_def)
  then have f1: "1 \<le> f" by (cases f) simp_all
  define y where "y = x * m"
  have "y * 45035996 \<le> y * 45035996 * f" using f1 by simp
  also have "\<dots> = x * (11258999 * (f * m * 4))" by (simp add: y_def)
  also have "\<dots> \<le> 2 ^ 50"
    unfolding x_def by (rule div_times_less_eq_dividend)
  finally have "y * 45035996 \<le> 1125899906842624" by simp
  then have "y < 4294967296" by linarith
  then have "m * x < 4294967296" by (simp add: y_def mult.commute)
  then show ?thesis
    using quarter_ticks_unat(1) [OF fm] by (simp add: x_def f_def m_def)
qed

lemma entry_windows: "windows c 0 (entry_state m t1 t2 y1 y2)"
  by (simp add: windows_def entry_state_def)

text \<open>
  C8. For every \<open>signal_freq\<close> and \<open>mf\<close> with \<open>signal_freq * mf \<ge> 25\<close>, tables of
  \<open>2 * mf\<close> entries and sine samples as they are for \<open>0 < ma < 1\<close>, the call returns, and
  every crossing tick captured in quarter \<open>q\<close> of the carrier cycle \<open>k\<close> lies in the
  window \<open>[k * carrier_duration + quarter_start, k * carrier_duration + quarter_end)\<close> of
  that quarter, and the captured crossing ticks of the whole run increase strictly.
\<close>

theorem C8_crossing_ticks:
  assumes "25 \<le> unat signal_freq * unat mf_arg"
    and "length t1 = 2 * unat mf_arg" and "length t2 = 2 * unat mf_arg"
    and "sine_signs (params_of s1 s2 signal_freq mf_arg)"
  shows "\<exists>p s. spwm_unipolar_arrays s1 s2 signal_freq mf_arg t1 t2 sync1 sync2 = Inr (p, s)
      \<and> (\<forall>e \<in> set (crossing_ticks s). in_window (params_of s1 s2 signal_freq mf_arg) e)
      \<and> sorted_wrt (<) (map tick (crossing_ticks s))"
proof -
  let ?c = "params_of s1 s2 signal_freq mf_arg"
  let ?e = "entry_state (unat mf_arg) t1 t2 sync1 sync2"
  have one: "1 \<le> unat signal_freq * unat mf_arg" using assms(1) by linarith
  have "\<exists>s'. cycles ?c ?e = Inr s'
           \<and> sound ?c (2 * max_cycle_counts ?c) (2 * max_cycle_counts ?c) s'
           \<and> windows ?c (4 * max_cycle_counts ?c) s' \<and> n s' = max_cycle_counts ?c"
    using entry_sound [OF assms(2,3), of ?c sync1 sync2] params_of_slope [OF assms(1), of s1 s2]
      params_of_room [OF one, of s1 s2] assms(4) entry_windows
    by (intro windows_cycles) simp_all
  then have "\<exists>s'. cycles ?c ?e = Inr s' \<and> windows ?c (4 * max_cycle_counts ?c) s'" by blast
  moreover have "estimable ?c"
    using params_of_slope [OF assms(1), of s1 s2] params_of_room [OF one, of s1 s2] assms(4)
    by (rule estimable_signs)
  ultimately have "\<exists>s0 s. sound ?c (2 * (unat mf_arg div 4)) (2 * (unat mf_arg div 4)) s0
      \<and> windows ?c (4 * max_cycle_counts ?c) s0
      \<and> last_off_durations ?c s0 = Inr s
      \<and> spwm_unipolar_arrays s1 s2 signal_freq mf_arg t1 t2 sync1 sync2
          = Inr (signal_duration ?c, s)"
    by (intro run_with [OF assms(1-3)])
  then
  obtain s0 s where w: "windows ?c (4 * max_cycle_counts ?c) s0"
    and l: "last_off_durations ?c s0 = Inr s"
    and r: "spwm_unipolar_arrays s1 s2 signal_freq mf_arg t1 t2 sync1 sync2
        = Inr (signal_duration ?c, s)"
    by auto
  from w have "(\<forall>e \<in> set (crossing_ticks s). in_window ?c e)
      \<and> sorted_wrt (<) (map tick (crossing_ticks s))"
    by (simp add: windows_def last_off_fields [OF l])
  with r show ?thesis by blast
qed

theorem C8_crossing_ticks_witness:
  "25 \<le> unat (50 :: 8 word) * unat (4 :: 16 word)
   \<and> length [0, 0, 0, 0, 0, 0, 0, 0 :: u32] = 2 * unat (4 :: 16 word)
   \<and> sine_signs (params_of (\<lambda>t. 500000) (\<lambda>t. - 500000) 50 4)
   \<and> (\<exists>p s. spwm_unipolar_arrays (\<lambda>t. 500000) (\<lambda>t. - 500000) 50 4
              [0, 0, 0, 0, 0, 0, 0, 0] [0, 0, 0, 0, 0, 0, 0, 0] 0 0 = Inr (p, s)
          \<and> crossing_ticks s
               = [(0, 1, 62500), (0, 2, 187500), (0, 3, 312500), (0, 4, 437500)]
          \<and> (\<forall>e \<in> set (crossing_ticks s).
                in_window (params_of (\<lambda>t. 500000) (\<lambda>t. - 500000) 50 4) e)
          \<and> sorted_wrt (<) (map tick (crossing_ticks s)))"
  using C8_crossing_ticks [where signal_freq = 50 and mf_arg = 4
      and ?t1.0 = "[0, 0, 0, 0, 0, 0, 0, 0]" and ?t2.0 = "[0, 0, 0, 0, 0, 0, 0, 0]"
      and ?s1.0 = "\<lambda>t. 500000" and ?s2.0 = "\<lambda>t. - 500000" and ?sync1.0 = 0 and ?sync2.0 = 0]
  by (simp add: full_run sine_signs_def)

section \<open>Synthesis: the sum of a table\<close>

text \<open>
  C4. The claim: for every valid configuration the \<open>2 * mf\<close> entries of either table add
  up to the period that \<^verbatim>\<open>spwm_unipolar_arrays\<close> returns. The code, called with
  \<open>signal_freq = 25\<close>, \<open>mf = 8\<close>, the modulation index 0.0000105 and two zero-filled tables
  of 16 entries, returns the period 4000000, and the entries of each table add up to
  3500004: the searches of the first and of the third quarter of the first carrier cycle
  end one tick before the crossing, each wave stores two durations in the loop instead of
  three, and the entries 3, 4, 11 and 12 of both tables are never written.
\<close>

theorem C4_sum_below_period:
  "\<exists>s. spwm_unipolar_arrays faint_sine (\<lambda>t. - faint_sine t) 25 8
          [0, 0, 0, 0, 0, 0, 0, 0, 0, 0, 0, 0, 0, 0, 0, 0]
          [0, 0, 0, 0, 0, 0, 0, 0, 0, 0, 0, 0, 0, 0, 0, 0] 0 0 = Inr (4000000, s)
     \<and> sum_list (map unat (h1_table s)) = 3500004
     \<and> sum_list (map unat (h2_table s)) = 3500004"
  by (simp add: faint_run)

end
